theory Spec2Isabelle
  imports Complex_Main "HOL-Library.Monad_Syntax"
begin

text \<open>
  The three notebooks of the repository (hypergraph convolution, graph convolution and
  graph transformer) build their propagation operators from calls into the sparse matrix
  library \<open>dgl.sparse\<close>. The notebooks are the source files at hand; the library is
  not, and its operations are modelled from the specification, each under a comment that
  says so. The builders themselves (\<open>HGNN.__init__\<close>, \<open>GCNLayer.forward\<close>,
  \<open>SparseMHA.forward\<close>) are translated from the notebooks line by line.
\<close>

section \<open>Tensor values\<close>

text \<open>
  The notebooks compute with float tensors. A stored value is modelled as a real number
  or as the one token \<open>NonFin\<close> standing for every non-finite float (an infinity or a
  NaN); rounding of finite values is not modelled, and their overflow is modelled for
  the attention scores only (in the section on float32 below). A sum or a product with
  a non-finite operand is non-finite (\<open>inf * 0\<close> is a NaN), so \<open>NonFin\<close> absorbs both
  operations.
\<close>

datatype fval = Fin real | NonFin

instantiation fval :: "{comm_monoid_add, times, one}"
begin

definition zero_fval :: fval where
  "zero_fval = Fin 0"

definition one_fval :: fval where
  "one_fval = Fin 1"

fun plus_fval :: "fval \<Rightarrow> fval \<Rightarrow> fval" where
  "plus_fval (Fin x) (Fin y) = Fin (x + y)"
| "plus_fval _ _ = NonFin"

fun times_fval :: "fval \<Rightarrow> fval \<Rightarrow> fval" where
  "times_fval (Fin x) (Fin y) = Fin (x * y)"
| "times_fval _ _ = NonFin"

instance
proof
  fix u v w :: fval
  show assoc: "u + v + w = u + (v + w)"
    by (cases u; cases v; cases w; simp)
  show commute: "u + v = v + u"
    by (cases u; cases v; simp)
  show zero_left: "0 + u = u"
    unfolding zero_fval_def by (cases u; simp)
qed

end

fun is_finite :: "fval \<Rightarrow> bool" where
  "is_finite (Fin x) = True"
| "is_finite NonFin = False"

text \<open>
  \<open>x ** p\<close> on one element of a float tensor, for a finite base \<open>x\<close>. The notebooks
  raise degree sums to the powers \<open>-0.5\<close> and \<open>-1\<close>. A zero base with a negative
  exponent is the division by zero of the specification, which yields a non-finite
  scaling factor; a negative base with a fractional exponent has no real power either.
  HOL's own \<open>0 powr p\<close> is 0, so the zero base is decided before \<open>powr\<close> is used.
\<close>

definition pow :: "real \<Rightarrow> real \<Rightarrow> fval" where
  "pow x p =
     (if 0 < x then Fin (x powr p)
      else if x = 0 then (if p < 0 then NonFin else if p = 0 then Fin 1 else Fin 0)
      else if p \<in> \<int> then Fin (x powi \<lfloor>p\<rfloor>)
      else NonFin)"

section \<open>Sparse matrices of \<open>dgl.sparse\<close>\<close>

text \<open>
  Modelled from the spec: the \<open>SparseMatrix\<close> objects of \<open>dgl.sparse\<close>. The
  specification describes a relation as a list of (row, column) index pairs,
  conceptually a sparse matrix of shape (num_rows, num_cols), and the operator as a
  sparse product. The model is the coordinate format: the shape and the list of stored
  entries, each an index pair with its value. An index pair stored more than once
  stands for the sum of its values; the order of the stored entries is observed by no
  operation the notebooks use.
\<close>

record 'v spmat =
  nrows :: nat
  ncols :: nat
  ents :: "((nat \<times> nat) \<times> 'v) list"

definition shape :: "'v spmat \<Rightarrow> nat \<times> nat" where
  "shape A = (nrows A, ncols A)"

text \<open>The index pairs stored in a matrix: its sparsity pattern.\<close>

definition pattern :: "'v spmat \<Rightarrow> (nat \<times> nat) list" where
  "pattern A = map fst (ents A)"

text \<open>The invariant of a \<open>SparseMatrix\<close> object: every stored index lies inside the shape.\<close>

definition wf_sp :: "'v spmat \<Rightarrow> bool" where
  "wf_sp A = list_all (\<lambda>(i, j). i < nrows A \<and> j < ncols A) (pattern A)"

text \<open>
  Modelled from the spec: \<open>dglsp.from_coo(row, col, shape=None)\<close> of the sparse library,
  which is not among the source files. The spec describes a relation as a list of
  (row, column) index pairs, conceptually a sparse 0/1 matrix of shape
  (num_rows, num_cols): every pair is stored with the value 1. Without a shape the
  matrix is as large as the largest indices need (the literal scenario of the spec is
  11 by 5). Index lists of different lengths, an empty list without a shape and an
  index outside a given shape are errors.
\<close>

definition from_coo :: "nat list \<Rightarrow> nat list \<Rightarrow> (nat \<times> nat) option \<Rightarrow> real spmat option" where
  "from_coo row col shp =
     (if length row \<noteq> length col then None
      else case shp of
        None \<Rightarrow>
          (if row = [] then None
           else Some \<lparr>nrows = Max (set row) + 1, ncols = Max (set col) + 1,
                      ents = map (\<lambda>p. (p, 1)) (zip row col)\<rparr>)
      | Some (n, m) \<Rightarrow>
          (if list_all (\<lambda>i. i < n) row \<and> list_all (\<lambda>j. j < m) col
           then Some \<lparr>nrows = n, ncols = m, ents = map (\<lambda>p. (p, 1)) (zip row col)\<rparr>
           else None))"

text \<open>
  Modelled from the spec: the value a list of stored entries gives to one index pair,
  the sum of the values stored there (zero when none is).
\<close>

definition entry_sum :: "((nat \<times> nat) \<times> 'v::comm_monoid_add) list \<Rightarrow> nat \<times> nat \<Rightarrow> 'v" where
  "entry_sum es p = sum_list (map snd (filter (\<lambda>e. fst e = p) es))"

text \<open>
  Modelled from the spec: the coalesced form in which a sum or a product of sparse
  matrices is returned, one stored entry for each index pair that occurs, holding the
  sum of the values at that pair.
\<close>

definition coalesce :: "((nat \<times> nat) \<times> 'v::comm_monoid_add) list \<Rightarrow> ((nat \<times> nat) \<times> 'v) list" where
  "coalesce es = map (\<lambda>p. (p, entry_sum es p)) (remdups (map fst es))"

text \<open>
  Modelled from the spec: \<open>A.to_dense()\<close>, the dense matrix a sparse matrix stands for.
  The entry at \<open>(i, j)\<close> is the sum of the values stored at \<open>(i, j)\<close>, zero when none is.
\<close>

definition to_dense :: "'v::comm_monoid_add spmat \<Rightarrow> nat \<Rightarrow> nat \<Rightarrow> 'v" where
  "to_dense A i j = entry_sum (ents A) (i, j)"

text \<open>
  Modelled from the spec: \<open>A.sum(dim)\<close>. The spec's degree vector is the row-sum
  (node degree) or the column-sum (hyperedge degree) of the matrix, a dense vector of
  length num_rows or num_cols. In the hypergraph notebook \<open>H.sum(1)\<close> of the 11 by 5
  matrix prints 11 numbers and \<open>H.sum(0)\<close> prints 5: dimension 1 gives the row sums and
  dimension 0 the column sums. Only these two dimensions are used.
\<close>

definition sum_sp :: "'v::comm_monoid_add spmat \<Rightarrow> nat \<Rightarrow> 'v list" where
  "sum_sp A d =
     (if d = 0
      then map (\<lambda>j. sum_list (map snd (filter (\<lambda>e. snd (fst e) = j) (ents A)))) [0..<ncols A]
      else map (\<lambda>i. sum_list (map snd (filter (\<lambda>e. fst (fst e) = i) (ents A)))) [0..<nrows A])"

text \<open>
  Modelled from the spec: \<open>dglsp.identity(shape)\<close>, the identity matrix \<open>I\<close> of the
  self loops (and the hyperedge weight matrix \<open>B\<close> of uniform weight 1): a stored 1 at
  every diagonal index.
\<close>

definition identity :: "nat \<times> nat \<Rightarrow> 'v::one spmat" where
  "identity shp =
     \<lparr>nrows = fst shp, ncols = snd shp,
      ents = map (\<lambda>i. ((i, i), 1)) [0..<min (fst shp) (snd shp)]\<rparr>"

text \<open>
  Modelled from the spec: \<open>dglsp.diag(v)\<close>, the diagonal scaling matrix of a vector.
  Every diagonal index is stored, whatever its value.
\<close>

definition diag :: "'v list \<Rightarrow> 'v spmat" where
  "diag v = \<lparr>nrows = length v, ncols = length v, ents = map (\<lambda>i. ((i, i), v ! i)) [0..<length v]\<rparr>"

text \<open>Modelled from the spec: \<open>A.T\<close>, the transpose \<open>R^T\<close> of a relation.\<close>

definition transpose_sp :: "'v spmat \<Rightarrow> 'v spmat" where
  "transpose_sp A =
     \<lparr>nrows = ncols A, ncols = nrows A, ents = map (\<lambda>e. ((snd (fst e), fst (fst e)), snd e)) (ents A)\<rparr>"

text \<open>
  Modelled from the spec: the entries of \<open>A + B\<close> for sparse matrices of one shape
  (the augmented adjacency matrix \<open>A + I\<close>): the stored entries of both operands,
  coalesced.
\<close>

definition plus_sp :: "'v::comm_monoid_add spmat \<Rightarrow> 'v spmat \<Rightarrow> 'v spmat" where
  "plus_sp A B = \<lparr>nrows = nrows A, ncols = ncols A, ents = coalesce (ents A @ ents B)\<rparr>"

text \<open>
  Modelled from the spec: \<open>A + B\<close> on sparse matrices; operands of different shapes
  are an error.
\<close>

definition add_sp :: "'v::comm_monoid_add spmat \<Rightarrow> 'v spmat \<Rightarrow> 'v spmat option" where
  "add_sp A B = (if shape A = shape B then Some (plus_sp A B) else None)"

text \<open>
  Modelled from the spec: the products formed by the sparse-sparse multiply of the
  sparse kernel. Every stored entry \<open>(i, j)\<close> of the left operand meets every stored
  entry \<open>(j, k)\<close> of the right operand, and their product goes to \<open>(i, k)\<close>. A stored
  value that meets no stored entry of the other operand takes part in no product: this
  is what makes the kernel sparse, and it is where the model differs from a dense
  product over floats, in which an infinite factor times an absent (zero) entry would be
  a NaN.
\<close>

definition products ::
  "((nat \<times> nat) \<times> 'v::times) list \<Rightarrow> ((nat \<times> nat) \<times> 'v) list \<Rightarrow> ((nat \<times> nat) \<times> 'v) list" where
  "products ea eb =
     concat (map (\<lambda>e. map (\<lambda>f. ((fst (fst e), snd (fst f)), snd e * snd f))
                           (filter (\<lambda>f. fst (fst f) = snd (fst e)) eb)) ea)"

text \<open>
  Modelled from the spec: the matrix \<open>A @ B\<close> of two sparse matrices whose inner
  dimensions agree, the coalesced products.
\<close>

definition mm :: "'v::{comm_monoid_add,times} spmat \<Rightarrow> 'v spmat \<Rightarrow> 'v spmat" where
  "mm A B = \<lparr>nrows = nrows A, ncols = ncols B, ents = coalesce (products (ents A) (ents B))\<rparr>"

text \<open>
  Modelled from the spec: \<open>A @ B\<close> on two sparse matrices; operands whose inner
  dimensions differ are an error.
\<close>

definition matmul :: "'v::{comm_monoid_add,times} spmat \<Rightarrow> 'v spmat \<Rightarrow> 'v spmat option" where
  "matmul A B = (if ncols A = nrows B then Some (mm A B) else None)"

text \<open>
  A matrix built from a relation holds finite values only and has real entries in the
  model; a scaling matrix may hold a non-finite value. \<open>float_sp\<close> is the inclusion of
  the first kind into the second, applied where the notebooks multiply a relation with
  a scaling matrix.
\<close>

definition float_sp :: "real spmat \<Rightarrow> fval spmat" where
  "float_sp A = \<lparr>nrows = nrows A, ncols = ncols A, ents = map (\<lambda>e. (fst e, Fin (snd e))) (ents A)\<rparr>"

text \<open>\<open>d ** p\<close> on a dense vector of degrees, element by element.\<close>

definition pow_t :: "real list \<Rightarrow> real \<Rightarrow> fval list" where
  "pow_t d p = map (\<lambda>x. pow x p) d"

text \<open>
  Modelled from the spec: \<open>D ** p\<close> on a sparse matrix, the diagonal scaling matrix
  raised to a scalar power: the power of every stored value.
\<close>

definition pow_sp :: "real spmat \<Rightarrow> real \<Rightarrow> fval spmat" where
  "pow_sp A p = \<lparr>nrows = nrows A, ncols = ncols A, ents = map (\<lambda>e. (fst e, pow (snd e) p)) (ents A)\<rparr>"

section \<open>The hypergraph operator of \<open>HGNN.__init__\<close>\<close>

text \<open>
  The Laplacian computed in \<open>HGNN.__init__\<close>, line by line. Python's \<open>@\<close> associates
  to the left, so the six factors are multiplied from left to right. The linear layers
  and the dropout of the module take no part in it.
\<close>

definition HGNN_init :: "real spmat \<Rightarrow> fval spmat option" where
  "HGNN_init H =
     (let d_V = sum_sp H 1;
          d_E = sum_sp H 0;
          D_v_invsqrt = diag (pow_t d_V (- (1 / 2)));
          D_e_inv = diag (pow_t d_E (- 1));
          n_edges = length d_E;
          B = identity (n_edges, n_edges)
      in do {
        m1 \<leftarrow> matmul D_v_invsqrt (float_sp H);
        m2 \<leftarrow> matmul m1 B;
        m3 \<leftarrow> matmul m2 D_e_inv;
        m4 \<leftarrow> matmul m3 (transpose_sp (float_sp H));
        matmul m4 D_v_invsqrt
      })"

section \<open>The plain-graph operator of \<open>GCNLayer.forward\<close>\<close>

text \<open>
  The sparse part of \<open>GCNLayer.forward\<close>: the normalised adjacency matrix
  \<open>D_hat_invsqrt @ A_hat @ D_hat_invsqrt\<close>, which the method builds (the product is
  evaluated from the left) before it multiplies it with the dense \<open>self.W(X)\<close>.
\<close>

definition GCNLayer_forward :: "real spmat \<Rightarrow> fval spmat option" where
  "GCNLayer_forward A =
     (let I = identity (shape A)
      in do {
        A_hat \<leftarrow> add_sp A I;
        let D_hat = diag (sum_sp A_hat 0);
        let D_hat_invsqrt = pow_sp D_hat (- (1 / 2));
        m1 \<leftarrow> matmul D_hat_invsqrt (float_sp A_hat);
        matmul m1 D_hat_invsqrt
      })"

section \<open>The sparse attention of \<open>SparseMHA.forward\<close>\<close>

text \<open>
  A dense tensor of shape \<open>[N, dh, nh]\<close> (node, feature, head) as a function of its
  three indices; \<open>k.transpose(1, 0)\<close> swaps the first two.
\<close>

type_synonym tensor3 = "nat \<Rightarrow> nat \<Rightarrow> nat \<Rightarrow> real"

definition transpose10 :: "tensor3 \<Rightarrow> tensor3" where
  "transpose10 t = (\<lambda>m n b. t n m b)"

text \<open>
  Modelled from the spec: \<open>dglsp.bsddmm(A, X1, X2)\<close>, the sampled dense-dense matrix
  multiply, a dense product restricted to a sparse output pattern, once per head. The
  result has the stored index pairs of \<open>A\<close>; the value at a stored \<open>(i, j)\<close> is, for
  head \<open>b\<close>, the dot product of row \<open>i\<close> of \<open>X1\<close> and column \<open>j\<close> of \<open>X2\<close> over
  the \<open>dh\<close> features, times the value \<open>A\<close> stores there (the Hadamard product with
  the adjacency matrix of the notebook's formula).
\<close>

definition bsddmm :: "real spmat \<Rightarrow> nat \<Rightarrow> tensor3 \<Rightarrow> tensor3 \<Rightarrow> (nat \<Rightarrow> real) spmat" where
  "bsddmm A dh X1 X2 =
     \<lparr>nrows = nrows A, ncols = ncols A,
      ents = map (\<lambda>e. (fst e, \<lambda>b. (\<Sum>m\<leftarrow>[0..<dh]. X1 (fst (fst e)) m b * X2 m (snd (fst e)) b) * snd e))
                 (ents A)\<rparr>"

text \<open>
  Modelled from the spec: \<open>attn.softmax()\<close>, the softmax normalised over the stored
  entries of each row, once per head: a stored value \<open>x\<close> of row \<open>i\<close> becomes
  \<open>exp x\<close> divided by the sum of \<open>exp\<close> over the stored entries of row \<open>i\<close>.
\<close>

definition softmax :: "(nat \<Rightarrow> real) spmat \<Rightarrow> (nat \<Rightarrow> real) spmat" where
  "softmax S =
     \<lparr>nrows = nrows S, ncols = ncols S,
      ents = map (\<lambda>e. (fst e, \<lambda>b. exp (snd e b) /
                         (\<Sum>f\<leftarrow>filter (\<lambda>f. fst (fst f) = fst (fst e)) (ents S). exp (snd f b))))
                 (ents S)\<rparr>"

text \<open>
  The attention matrix of \<open>SparseMHA.forward\<close>. \<open>q0\<close> and \<open>k0\<close> are the reshaped
  outputs of the query and key projections (\<open>self.q_proj(h).reshape(N, dh, nh)\<close>, and
  the same for \<open>k\<close>), \<open>dh\<close> is \<open>self.head_dim\<close> and \<open>scaling\<close> is
  \<open>self.scaling\<close>. The method scales the queries, takes the sampled product of queries
  and transposed keys on the pattern of \<open>A\<close> and normalises it by the sparse softmax.
\<close>

definition SparseMHA_attn :: "nat \<Rightarrow> real \<Rightarrow> real spmat \<Rightarrow> tensor3 \<Rightarrow> tensor3 \<Rightarrow> (nat \<Rightarrow> real) spmat" where
  "SparseMHA_attn dh scaling A q0 k0 =
     (let q = (\<lambda>n m b. q0 n m b * scaling);
          k = k0;
          attn = bsddmm A dh q (transpose10 k)
      in softmax attn)"

text \<open>The dense entry of a per-head sparse matrix: the sum of the stored values at an index.\<close>

definition to_dense_head :: "(nat \<Rightarrow> real) spmat \<Rightarrow> nat \<Rightarrow> nat \<Rightarrow> nat \<Rightarrow> real" where
  "to_dense_head S i j b = (\<Sum>e\<leftarrow>filter (\<lambda>e. fst e = (i, j)) (ents S). snd e b)"

section \<open>The sparse attention with the overflow of float32\<close>

text \<open>
  \<open>SparseMHA_attn\<close> computes over exact reals: it is the attention matrix as long as no
  score leaves the range of the float32 numbers the notebook computes with. Queries and
  keys are learned activations of no fixed size, so for the attention the overflow is
  written out as well. A result is taken through \<open>fl\<close>: it is kept when its magnitude
  lies below the point from which float32 rounds to an infinity, \<open>2^128 - 2^103\<close>, and
  is the non-finite token otherwise. Rounding inside the range is not modelled.
\<close>

definition float32_overflow :: real where
  "float32_overflow = (2 ^ 25 - 1) * 2 ^ 103"

definition fl :: "real \<Rightarrow> fval" where
  "fl x = (if \<bar>x\<bar> < float32_overflow then Fin x else NonFin)"

text \<open>The float32 product and sum of two tensor values; a non-finite operand stays.\<close>

fun mul32 :: "fval \<Rightarrow> fval \<Rightarrow> fval" where
  "mul32 (Fin x) (Fin y) = fl (x * y)"
| "mul32 _ _ = NonFin"

fun add32 :: "fval \<Rightarrow> fval \<Rightarrow> fval" where
  "add32 (Fin x) (Fin y) = fl (x + y)"
| "add32 _ _ = NonFin"

text \<open>The real number a finite tensor value holds.\<close>

fun fin_val :: "fval \<Rightarrow> real" where
  "fin_val (Fin x) = x"
| "fin_val NonFin = 0"

type_synonym tensor3f = "nat \<Rightarrow> nat \<Rightarrow> nat \<Rightarrow> fval"

definition transpose10_f32 :: "tensor3f \<Rightarrow> tensor3f" where
  "transpose10_f32 t = (\<lambda>m n b. t n m b)"

text \<open>
  The dot product over the \<open>dh\<close> features, accumulated feature by feature in float32.
\<close>

definition dot32 :: "nat \<Rightarrow> (nat \<Rightarrow> fval) \<Rightarrow> (nat \<Rightarrow> fval) \<Rightarrow> fval" where
  "dot32 dh x y = foldl (\<lambda>acc m. add32 acc (mul32 (x m) (y m))) (Fin 0) [0..<dh]"

text \<open>
  Modelled from the spec: \<open>dglsp.bsddmm(A, X1, X2)\<close> on float32 tensors, the sampled
  dense-dense matrix multiply of \<open>bsddmm\<close> with every product and every partial sum
  taken in float32.
\<close>

definition bsddmm_f32 :: "real spmat \<Rightarrow> nat \<Rightarrow> tensor3f \<Rightarrow> tensor3f \<Rightarrow> (nat \<Rightarrow> fval) spmat" where
  "bsddmm_f32 A dh X1 X2 =
     \<lparr>nrows = nrows A, ncols = ncols A,
      ents = map (\<lambda>e. (fst e, \<lambda>b. mul32 (dot32 dh (\<lambda>m. X1 (fst (fst e)) m b) (\<lambda>m. X2 m (snd (fst e)) b))
                                       (Fin (snd e))))
                 (ents A)\<rparr>"

text \<open>
  Modelled from the spec: \<open>attn.softmax()\<close> on float32 scores, the softmax normalised
  over the stored entries of each row, once per head. On a row whose stored scores are
  all finite it is \<open>softmax\<close>. A non-finite score has no softmax weight: the weight of
  the one stored entry of a row is a NaN when its score is an infinity or a NaN, which
  is the case the self-loop graph meets. For a row of several stored entries with a
  non-finite score among them the float result depends on which non-finite value it is,
  which the one token does not record; the model then gives the non-finite token to the
  whole row.
\<close>

definition softmax_f32 :: "(nat \<Rightarrow> fval) spmat \<Rightarrow> (nat \<Rightarrow> fval) spmat" where
  "softmax_f32 S =
     \<lparr>nrows = nrows S, ncols = ncols S,
      ents = map (\<lambda>e. (fst e, \<lambda>b.
                   (let row = filter (\<lambda>f. fst (fst f) = fst (fst e)) (ents S)
                    in if list_all (\<lambda>f. is_finite (snd f b)) row
                       then Fin (exp (fin_val (snd e b)) / (\<Sum>f\<leftarrow>row. exp (fin_val (snd f b))))
                       else NonFin)))
                 (ents S)\<rparr>"

text \<open>
  \<open>SparseMHA.forward\<close> in float32, in its two steps: the scores
  \<open>attn = dglsp.bsddmm(A, q, k.transpose(1, 0))\<close> of the scaled queries and the keys,
  and the attention matrix \<open>attn = attn.softmax()\<close>. The projected queries and keys
  \<open>q0\<close> and \<open>k0\<close> are finite; \<open>q *= self.scaling\<close> is a float32 product.
\<close>

definition SparseMHA_scores_f32 :: "nat \<Rightarrow> real \<Rightarrow> real spmat \<Rightarrow> tensor3 \<Rightarrow> tensor3 \<Rightarrow> (nat \<Rightarrow> fval) spmat" where
  "SparseMHA_scores_f32 dh scaling A q0 k0 =
     (let q = (\<lambda>n m b. fl (q0 n m b * scaling));
          k = (\<lambda>n m b. Fin (k0 n m b))
      in bsddmm_f32 A dh q (transpose10_f32 k))"

definition SparseMHA_attn_f32 :: "nat \<Rightarrow> real \<Rightarrow> real spmat \<Rightarrow> tensor3 \<Rightarrow> tensor3 \<Rightarrow> (nat \<Rightarrow> fval) spmat" where
  "SparseMHA_attn_f32 dh scaling A q0 k0 = softmax_f32 (SparseMHA_scores_f32 dh scaling A q0 k0)"

text \<open>The dense entry of a per-head matrix of tensor values.\<close>

definition to_dense_head_f32 :: "(nat \<Rightarrow> fval) spmat \<Rightarrow> nat \<Rightarrow> nat \<Rightarrow> nat \<Rightarrow> fval" where
  "to_dense_head_f32 S i j b = (\<Sum>e\<leftarrow>filter (\<lambda>e. fst e = (i, j)) (ents S). snd e b)"

section \<open>The literal scenario of the hypergraph notebook\<close>

definition example_rows :: "nat list" where
  "example_rows = [0, 1, 2, 2, 2, 2, 3, 4, 5, 5, 5, 5, 6, 7, 7, 8, 8, 9, 9, 10]"

definition example_cols :: "nat list" where
  "example_cols = [0, 0, 0, 1, 3, 4, 2, 1, 0, 2, 3, 4, 2, 1, 3, 1, 3, 2, 4, 4]"

section \<open>Relations, reference operators and example inputs\<close>

text \<open>
  The matrices the claims speak of: a relation stores the value 1 at each of its index
  pairs, inside its shape. Every result of \<open>from_coo\<close> is one.
\<close>

definition is_relation :: "real spmat \<Rightarrow> bool" where
  "is_relation H = (wf_sp H \<and> list_all (\<lambda>e. snd e = 1) (ents H))"

text \<open>
  The chain of \<open>HGNN.__init__\<close> over the reals, with \<open>powr\<close> for the two powers.
  It serves to state what the operator is: the proofs show that \<open>HGNN.__init__\<close>
  returns this matrix, every value finite.
\<close>

definition HGNN_real :: "real spmat \<Rightarrow> real spmat" where
  "HGNN_real H =
     (let s_V = map (\<lambda>x. x powr (- (1 / 2))) (sum_sp H 1);
          s_E = map (\<lambda>x. x powr (- 1)) (sum_sp H 0);
          B = identity (ncols H, ncols H)
      in mm (mm (mm (mm (mm (diag s_V) H) B) (diag s_E)) (transpose_sp H)) (diag s_V))"

text \<open>The chain of \<open>GCNLayer.forward\<close> over the reals, in the same way.\<close>

definition GCN_real :: "real spmat \<Rightarrow> real spmat" where
  "GCN_real A =
     (let A_hat = plus_sp A (identity (shape A));
          s = map (\<lambda>x. x powr (- (1 / 2))) (sum_sp A_hat 0)
      in mm (mm (diag s) A_hat) (diag s))"

text \<open>
  Dense matrices as functions of a row and a column index, their product over an inner
  dimension \<open>n\<close> and the diagonal matrix of a vector: the notation in which the
  specification writes its operators.
\<close>

definition mat_mul :: "nat \<Rightarrow> (nat \<Rightarrow> nat \<Rightarrow> real) \<Rightarrow> (nat \<Rightarrow> nat \<Rightarrow> real) \<Rightarrow> nat \<Rightarrow> nat \<Rightarrow> real" where
  "mat_mul n X Y = (\<lambda>i k. \<Sum>j<n. X i j * Y j k)"

definition diag_mat :: "(nat \<Rightarrow> real) \<Rightarrow> nat \<Rightarrow> nat \<Rightarrow> real" where
  "diag_mat d = (\<lambda>i j. if i = j then d i else 0)"

text \<open>
  The hypergraph operator in the words of the specification, for a relation \<open>R\<close> of
  \<open>N\<close> rows and \<open>M\<close> columns and a weight vector:
  \<open>degree_row[i]\<close> is the sum over \<open>j\<close> of \<open>R[i,j] * weight[j]\<close>, \<open>degree_col[j]\<close>
  the sum over \<open>i\<close> of \<open>R[i,j]\<close>, and the operator is
  \<open>diag(degree_row)^(-1/2) \<cdot> R \<cdot> diag(weight) \<cdot> diag(degree_col)^(-1) \<cdot> R^T \<cdot> diag(degree_row)^(-1/2)\<close>.
\<close>

definition spec_hypergraph_operator ::
  "nat \<Rightarrow> nat \<Rightarrow> (nat \<Rightarrow> nat \<Rightarrow> real) \<Rightarrow> (nat \<Rightarrow> real) \<Rightarrow> nat \<Rightarrow> nat \<Rightarrow> real" where
  "spec_hypergraph_operator N M R weight =
     (let degree_row = (\<lambda>i. \<Sum>j<M. R i j * weight j);
          degree_col = (\<lambda>j. \<Sum>i<N. R i j);
          D_row = diag_mat (\<lambda>i. degree_row i powr (- (1 / 2)));
          D_col = diag_mat (\<lambda>j. degree_col j powr (- 1));
          R_T = (\<lambda>j i. R i j)
      in mat_mul N (mat_mul M (mat_mul M (mat_mul M (mat_mul N D_row R) (diag_mat weight)) D_col) R_T) D_row)"

text \<open>
  The plain-graph operator in the words of the specification:
  \<open>diag(degree)^(-1/2) \<cdot> (A+I) \<cdot> diag(degree)^(-1/2)\<close>, the degree being the row sum
  of the augmented adjacency matrix \<open>A+I\<close>.
\<close>

definition spec_graph_operator :: "nat \<Rightarrow> (nat \<Rightarrow> nat \<Rightarrow> real) \<Rightarrow> nat \<Rightarrow> nat \<Rightarrow> real" where
  "spec_graph_operator N A =
     (let A_hat = (\<lambda>i j. A i j + (if i = j then 1 else 0));
          degree = (\<lambda>i. \<Sum>j<N. A_hat i j);
          D = diag_mat (\<lambda>i. degree i powr (- (1 / 2)))
      in mat_mul N (mat_mul N D A_hat) D)"

text \<open>The same operator with the degree taken as the column sum of \<open>A+I\<close>.\<close>

definition column_graph_operator :: "nat \<Rightarrow> (nat \<Rightarrow> nat \<Rightarrow> real) \<Rightarrow> nat \<Rightarrow> nat \<Rightarrow> real" where
  "column_graph_operator N A =
     (let A_hat = (\<lambda>i j. A i j + (if i = j then 1 else 0));
          degree = (\<lambda>j. \<Sum>i<N. A_hat i j);
          D = diag_mat (\<lambda>i. degree i powr (- (1 / 2)))
      in mat_mul N (mat_mul N D A_hat) D)"

text \<open>
  Small inputs on which the theorems are instantiated: a hypergraph of two nodes in one
  hyperedge; the graph with the single edge stored at \<open>(0, 1)\<close>; the directed cycle
  on three nodes; the same single edge beside an isolated third node; a hypergraph
  whose middle node lies in no hyperedge; and the graphs of two and of three self
  loops.
\<close>

definition two_nodes_one_edge :: "real spmat" where
  "two_nodes_one_edge = \<lparr>nrows = 2, ncols = 1, ents = [((0, 0), 1), ((1, 0), 1)]\<rparr>"

definition one_edge :: "real spmat" where
  "one_edge = \<lparr>nrows = 2, ncols = 2, ents = [((0, 1), 1)]\<rparr>"

definition directed_cycle :: "real spmat" where
  "directed_cycle = \<lparr>nrows = 3, ncols = 3, ents = [((0, 1), 1), ((1, 2), 1), ((2, 0), 1)]\<rparr>"

definition edge_and_isolated :: "real spmat" where
  "edge_and_isolated = \<lparr>nrows = 3, ncols = 3, ents = [((0, 1), 1)]\<rparr>"

definition isolated_node :: "real spmat" where
  "isolated_node = \<lparr>nrows = 3, ncols = 1, ents = [((0, 0), 1), ((2, 0), 1)]\<rparr>"

definition two_loops :: "real spmat" where
  "two_loops = \<lparr>nrows = 2, ncols = 2, ents = [((0, 0), 1), ((1, 1), 1)]\<rparr>"

text \<open>The graph of two nodes joined by an edge in both directions.\<close>

definition two_way_edge :: "real spmat" where
  "two_way_edge = \<lparr>nrows = 2, ncols = 2, ents = [((0, 1), 1), ((1, 0), 1)]\<rparr>"

definition three_loops :: "real spmat" where
  "three_loops = \<lparr>nrows = 3, ncols = 3, ents = [((2, 2), 1), ((0, 0), 1), ((1, 1), 1)]\<rparr>"

section \<open>Entry sums, coalescing and the sparse product\<close>

lemma entry_sum_Nil: "entry_sum [] p = 0"
  by (simp add: entry_sum_def)

lemma entry_sum_Cons:
  "entry_sum (e # es) p = (if fst e = p then snd e + entry_sum es p else entry_sum es p)"
  by (simp add: entry_sum_def)

lemma entry_sum_append: "entry_sum (xs @ ys) p = entry_sum xs p + entry_sum ys p"
  by (simp add: entry_sum_def)

lemma entry_sum_absent: "p \<notin> fst ` set es \<Longrightarrow> entry_sum es p = 0"
  by (induction es) (auto simp: entry_sum_Nil entry_sum_Cons)

lemma filter_eq_distinct:
  "distinct ks \<Longrightarrow> filter (\<lambda>q. q = p) ks = (if p \<in> set ks then [p] else [])"
  by (induction ks) auto

lemma entry_sum_coalesce: "entry_sum (coalesce es) p = entry_sum es p"
proof -
  have "entry_sum (coalesce es) p
      = sum_list (map (\<lambda>q. entry_sum es q) (filter (\<lambda>q. q = p) (remdups (map fst es))))"
    by (simp add: entry_sum_def coalesce_def filter_map comp_def)
  also have "\<dots> = (if p \<in> fst ` set es then entry_sum es p else 0)"
    by (simp add: filter_eq_distinct)
  also have "\<dots> = entry_sum es p"
    by (simp add: entry_sum_absent)
  finally show ?thesis .
qed

lemma keys_coalesce: "set (map fst (coalesce es)) = fst ` set es"
  by (simp add: coalesce_def comp_def)

lemma map_fst_coalesce: "map fst (coalesce es) = remdups (map fst es)"
  by (simp add: coalesce_def comp_def)

lemma keys_products:
  "fst ` set (products ea eb) =
     {(i, k). \<exists>j. (i, j) \<in> fst ` set ea \<and> (j, k) \<in> fst ` set eb}"
  by (force simp: products_def image_iff)

lemma entry_sum_products:
  fixes ea :: "((nat \<times> nat) \<times> 'v::semiring_0) list"
  shows "entry_sum (products ea eb) (i, k)
       = (\<Sum>e\<leftarrow>filter (\<lambda>e. fst (fst e) = i) ea. snd e * entry_sum eb (snd (fst e), k))"
proof (induction ea)
  case Nil
  show ?case by (simp add: products_def entry_sum_def)
next
  case (Cons e ea)
  have inner: "entry_sum (map (\<lambda>f. ((fst (fst e), snd (fst f)), snd e * snd f))
                   (filter (\<lambda>f. fst (fst f) = snd (fst e)) eb)) (i, k)
             = (if fst (fst e) = i then snd e * entry_sum eb (snd (fst e), k) else 0)"
  proof (induction eb)
    case Nil
    show ?case by (simp add: entry_sum_def)
  next
    case (Cons f eb)
    then show ?case
      by (cases f) (auto simp: entry_sum_Cons distrib_left prod_eq_iff)
  qed
  have "products (e # ea) eb
      = map (\<lambda>f. ((fst (fst e), snd (fst f)), snd e * snd f))
            (filter (\<lambda>f. fst (fst f) = snd (fst e)) eb) @ products ea eb"
    by (simp add: products_def)
  then show ?case
    using Cons.IH inner by (simp add: entry_sum_append)
qed

lemma row_sum_as_sum:
  fixes ea :: "((nat \<times> nat) \<times> 'v::semiring_0) list"
  assumes "\<forall>e\<in>set ea. snd (fst e) < n"
  shows "(\<Sum>e\<leftarrow>filter (\<lambda>e. fst (fst e) = i) ea. snd e * g (snd (fst e)))
       = (\<Sum>j<n. entry_sum ea (i, j) * g j)"
  using assms
proof (induction ea)
  case Nil
  show ?case by (simp add: entry_sum_def)
next
  case (Cons e ea)
  obtain i' j' a where e: "e = ((i', j'), a)" by (cases e) auto
  from Cons.prems e have j': "j' < n" by simp
  have IH: "(\<Sum>e\<leftarrow>filter (\<lambda>e. fst (fst e) = i) ea. snd e * g (snd (fst e)))
       = (\<Sum>j<n. entry_sum ea (i, j) * g j)"
    using Cons by simp
  show ?case
  proof (cases "i' = i")
    case False
    then show ?thesis using IH e by (simp add: entry_sum_Cons)
  next
    case True
    have "(\<Sum>j<n. entry_sum (e # ea) (i, j) * g j)
        = (\<Sum>j<n. (if j = j' then a * g j else 0) + entry_sum ea (i, j) * g j)"
      using True e by (intro sum.cong) (auto simp: entry_sum_Cons distrib_right)
    also have "\<dots> = a * g j' + (\<Sum>j<n. entry_sum ea (i, j) * g j)"
      using j' by (simp add: sum.distrib)
    finally show ?thesis using True e IH by simp
  qed
qed

lemma to_dense_mm:
  fixes A :: "'v::semiring_0 spmat"
  assumes "wf_sp A"
  shows "to_dense (mm A B) i k = (\<Sum>j<ncols A. to_dense A i j * to_dense B j k)"
proof -
  have cols: "\<forall>e\<in>set (ents A). snd (fst e) < ncols A"
    using assms by (auto simp: wf_sp_def pattern_def list_all_iff)
  show ?thesis
    unfolding to_dense_def mm_def
    by (simp add: entry_sum_coalesce entry_sum_products
        row_sum_as_sum [OF cols, where g = "\<lambda>j. entry_sum (ents B) (j, k)"])
qed

section \<open>Finite matrices inside tensor-valued ones; shapes and patterns\<close>

lemma sum_list_Fin: "sum_list (map Fin xs) = Fin (sum_list xs)"
  by (induction xs) (simp_all add: zero_fval_def)

lemma entry_sum_float:
  "entry_sum (map (\<lambda>e. (fst e, Fin (snd e))) es) p = Fin (entry_sum es p)"
proof -
  have "map snd (filter (\<lambda>e. fst e = p) (map (\<lambda>e. (fst e, Fin (snd e))) es))
      = map Fin (map snd (filter (\<lambda>e. fst e = p) es))"
    by (induction es) auto
  then show ?thesis unfolding entry_sum_def by (simp only: sum_list_Fin)
qed

lemma coalesce_float:
  "coalesce (map (\<lambda>e. (fst e, Fin (snd e))) es) = map (\<lambda>e. (fst e, Fin (snd e))) (coalesce es)"
  by (simp add: coalesce_def entry_sum_float comp_def)

lemma products_float:
  "products (map (\<lambda>e. (fst e, Fin (snd e))) ea) (map (\<lambda>e. (fst e, Fin (snd e))) eb)
     = map (\<lambda>e. (fst e, Fin (snd e))) (products ea eb)"
  by (induction ea) (simp_all add: products_def filter_map comp_def)

lemma mm_float: "mm (float_sp A) (float_sp B) = float_sp (mm A B)"
  by (simp add: mm_def float_sp_def products_float coalesce_float)

lemma to_dense_float: "to_dense (float_sp A) i j = Fin (to_dense A i j)"
  by (simp add: to_dense_def float_sp_def entry_sum_float)

lemma transpose_float: "transpose_sp (float_sp A) = float_sp (transpose_sp A)"
  by (simp add: transpose_sp_def float_sp_def)

lemma diag_Fin: "diag (map Fin v) = float_sp (diag v)"
  by (simp add: diag_def float_sp_def)

lemma identity_float: "(identity s :: fval spmat) = float_sp (identity s)"
  by (simp add: identity_def float_sp_def one_fval_def)

lemma shape_float [simp]: "nrows (float_sp A) = nrows A" "ncols (float_sp A) = ncols A"
  by (simp_all add: float_sp_def)

lemma shape_mm [simp]: "nrows (mm A B) = nrows A" "ncols (mm A B) = ncols B"
  by (simp_all add: mm_def)

lemma shape_diag [simp]: "nrows (diag v) = length v" "ncols (diag v) = length v"
  by (simp_all add: diag_def)

lemma shape_identity [simp]: "nrows (identity s) = fst s" "ncols (identity s) = snd s"
  by (simp_all add: identity_def)

lemma shape_transpose [simp]: "nrows (transpose_sp A) = ncols A" "ncols (transpose_sp A) = nrows A"
  by (simp_all add: transpose_sp_def)

lemma length_sum_sp: "length (sum_sp A 0) = ncols A" "length (sum_sp A (Suc 0)) = nrows A"
  by (simp_all add: sum_sp_def)

lemma filter_upt_eq: "filter (\<lambda>i. i = j) [0..<n] = (if j < n then [j] else [])"
  by (induction n) auto

lemma entry_sum_diagonal:
  "entry_sum (map (\<lambda>i. ((i, i), f i)) [0..<n]) (i, j) = (if i = j \<and> i < n then f i else 0)"
proof -
  have "filter (\<lambda>e. fst e = (i, j)) (map (\<lambda>i. ((i, i), f i)) [0..<n])
      = map (\<lambda>i. ((i, i), f i)) (filter (\<lambda>l. l = i \<and> i = j) [0..<n])"
  proof -
    have "(\<lambda>x. x = i \<and> x = j) = (\<lambda>l. l = i \<and> i = j)" by auto
    then show ?thesis by (simp add: filter_map comp_def)
  qed
  also have "\<dots> = (if i = j \<and> i < n then [((i, i), f i)] else [])"
    by (cases "i = j") (simp_all add: filter_upt_eq)
  finally show ?thesis by (simp add: entry_sum_def)
qed

lemma to_dense_diag: "to_dense (diag v) i j = (if i = j \<and> i < length v then v ! i else 0)"
  by (simp add: to_dense_def diag_def entry_sum_diagonal)

lemma to_dense_identity:
  "to_dense (identity (n, m) :: 'v::{comm_monoid_add,one} spmat) i j = (if i = j \<and> i < min n m then 1 else 0)"
  by (simp add: to_dense_def identity_def entry_sum_diagonal)

lemma to_dense_transpose: "to_dense (transpose_sp A) i j = to_dense A j i"
proof -
  have "map snd (filter (\<lambda>e. fst e = (i, j)) (map (\<lambda>e. ((snd (fst e), fst (fst e)), snd e)) es))
      = map snd (filter (\<lambda>e. fst e = (j, i)) es)" for es :: "((nat \<times> nat) \<times> 'a) list"
    by (induction es) auto
  then show ?thesis by (simp add: to_dense_def transpose_sp_def entry_sum_def)
qed

lemma wf_float [simp]: "wf_sp (float_sp A) = wf_sp A"
  by (simp add: wf_sp_def pattern_def float_sp_def comp_def)

lemma wf_diag [simp]: "wf_sp (diag v)"
  by (simp add: wf_sp_def pattern_def diag_def list_all_iff)

lemma wf_identity [simp]: "wf_sp (identity s)"
  by (simp add: wf_sp_def pattern_def identity_def list_all_iff)

lemma wf_transpose [simp]: "wf_sp (transpose_sp A) = wf_sp A"
  by (auto simp: wf_sp_def pattern_def transpose_sp_def list_all_iff)

lemma pattern_mm:
  "set (pattern (mm A B)) = {(i, k). \<exists>j. (i, j) \<in> set (pattern A) \<and> (j, k) \<in> set (pattern B)}"
  using keys_products [of "ents A" "ents B"]
  by (simp add: pattern_def mm_def map_fst_coalesce)

lemma wf_mm: "wf_sp A \<Longrightarrow> wf_sp B \<Longrightarrow> wf_sp (mm A B)"
  unfolding wf_sp_def list_all_iff pattern_mm by (auto simp: mm_def)

lemma pattern_float [simp]: "pattern (float_sp A) = pattern A"
  by (simp add: pattern_def float_sp_def comp_def)

lemma pattern_diag: "set (pattern (diag v)) = {(i, i) | i. i < length v}"
  by (auto simp: pattern_def diag_def)

lemma pattern_identity: "set (pattern (identity s)) = {(i, i) | i. i < min (fst s) (snd s)}"
  by (auto simp: pattern_def identity_def)

lemma pattern_transpose: "set (pattern (transpose_sp A)) = {(j, i). (i, j) \<in> set (pattern A)}"
  by (force simp: pattern_def transpose_sp_def image_iff)

text \<open>A diagonal factor on the left is read only at the rows the other operand stores.\<close>

lemma mm_diag_left_cong:
  assumes "length v = length w"
    and "\<forall>e\<in>set (ents X). v ! fst (fst e) = w ! fst (fst e)"
  shows "mm (diag v) X = mm (diag w) X"
proof -
  from assms(2) have same: "\<And>i k b. ((i, k), b) \<in> set (ents X) \<Longrightarrow> v ! i = w ! i"
    by force
  have "products (ents (diag v)) (ents X) = products (ents (diag w)) (ents X)"
    using assms(1) same
    by (auto simp: products_def diag_def comp_def intro!: arg_cong [where f = concat])
  then show ?thesis using assms by (simp add: mm_def)
qed

lemma mm_diag_right_cong:
  assumes "length v = length w"
    and "\<forall>e\<in>set (ents X). v ! snd (fst e) = w ! snd (fst e)"
  shows "mm X (diag v) = mm X (diag w)"
proof -
  have "filter (\<lambda>f. fst (fst f) = j) (map (\<lambda>i. ((i, i), u ! i)) [0..<n])
      = (if j < n then [((j, j), u ! j)] else [])" for j n and u :: "'a list"
  proof -
    have "filter (\<lambda>f. fst (fst f) = j) (map (\<lambda>i. ((i, i), u ! i)) [0..<n])
        = map (\<lambda>i. ((i, i), u ! i)) (filter (\<lambda>i. i = j) [0..<n])"
      by (simp add: filter_map comp_def)
    then show ?thesis by (simp add: filter_upt_eq)
  qed
  moreover from assms(2) have "\<And>i k b. ((i, k), b) \<in> set (ents X) \<Longrightarrow> v ! k = w ! k"
    by force
  ultimately have "products (ents X) (ents (diag v)) = products (ents X) (ents (diag w))"
    using assms(1) by (auto simp: products_def diag_def intro!: arg_cong [where f = concat])
  then show ?thesis using assms by (simp add: mm_def)
qed

section \<open>The hypergraph operator is finite-valued\<close>

lemma from_coo_relation: "from_coo row col shp = Some H \<Longrightarrow> is_relation H"
proof -
  assume a: "from_coo row col shp = Some H"
  then have len: "length row = length col"
    by (auto simp: from_coo_def split: if_splits)
  have vals: "ents H = map (\<lambda>p. (p, 1)) (zip row col)"
    using a by (auto simp: from_coo_def split: if_splits option.splits)
  have "\<forall>p\<in>set (zip row col). fst p < nrows H \<and> snd p < ncols H"
  proof (cases shp)
    case None
    with a have nr: "nrows H = Max (set row) + 1" and nc: "ncols H = Max (set col) + 1"
      by (auto simp: from_coo_def split: if_splits)
    show ?thesis
    proof
      fix p assume "p \<in> set (zip row col)"
      moreover obtain i j where "p = (i, j)" by (cases p)
      ultimately have "fst p \<in> set row" "snd p \<in> set col"
        by (auto dest: set_zip_leftD set_zip_rightD)
      then have "fst p \<le> Max (set row)" "snd p \<le> Max (set col)"
        by simp_all
      then show "fst p < nrows H \<and> snd p < ncols H" using nr nc by simp
    qed
  next
    case (Some s)
    with a have "list_all (\<lambda>i. i < nrows H) row" "list_all (\<lambda>j. j < ncols H) col"
      by (auto simp: from_coo_def split: if_splits prod.splits)
    then show ?thesis
      by (auto simp: list_all_iff dest: set_zip_leftD set_zip_rightD)
  qed
  then show ?thesis
    by (auto simp: is_relation_def wf_sp_def pattern_def vals list_all_iff)
qed

lemma sum_list_ones:
  fixes xs :: "('a \<times> real) list"
  shows "\<forall>e\<in>set xs. snd e = 1 \<Longrightarrow> sum_list (map snd xs) = real (length xs)"
  by (induction xs) auto

lemma row_degree_pos:
  assumes "is_relation H" "p \<in> set (pattern H)"
  shows "fst p < length (sum_sp H 1) \<and> 1 \<le> sum_sp H 1 ! fst p"
proof -
  from assms obtain e where e: "e \<in> set (ents H)" "fst e = p"
    by (auto simp: pattern_def)
  let ?row = "filter (\<lambda>f. fst (fst f) = fst p) (ents H)"
  have in_range: "fst p < nrows H"
    using assms by (auto simp: is_relation_def wf_sp_def list_all_iff)
  have "e \<in> set ?row" using e by simp
  then have "1 \<le> length ?row"
    by (cases ?row) auto
  moreover have "sum_list (map snd ?row) = real (length ?row)"
    using assms(1) by (intro sum_list_ones) (auto simp: is_relation_def list_all_iff)
  ultimately show ?thesis using in_range by (simp add: sum_sp_def)
qed

lemma col_degree_pos:
  assumes "is_relation H" "p \<in> set (pattern H)"
  shows "snd p < length (sum_sp H 0) \<and> 1 \<le> sum_sp H 0 ! snd p"
proof -
  from assms obtain e where e: "e \<in> set (ents H)" "fst e = p"
    by (auto simp: pattern_def)
  let ?col = "filter (\<lambda>f. snd (fst f) = snd p) (ents H)"
  have in_range: "snd p < ncols H"
    using assms by (auto simp: is_relation_def wf_sp_def list_all_iff)
  have "e \<in> set ?col" using e by simp
  then have "1 \<le> length ?col"
    by (cases ?col) auto
  moreover have "sum_list (map snd ?col) = real (length ?col)"
    using assms(1) by (intro sum_list_ones) (auto simp: is_relation_def list_all_iff)
  ultimately show ?thesis using in_range by (simp add: sum_sp_def)
qed

lemma pow_pos: "0 < x \<Longrightarrow> pow x p = Fin (x powr p)"
  by (simp add: pow_def)

lemma mm_diag_left_pattern:
  assumes "length v = length w" "\<forall>p\<in>set (pattern X). v ! fst p = w ! fst p"
  shows "mm (diag v) X = mm (diag w) X"
  using assms by (intro mm_diag_left_cong) (auto simp: pattern_def)

lemma mm_diag_right_pattern:
  assumes "length v = length w" "\<forall>p\<in>set (pattern X). v ! snd p = w ! snd p"
  shows "mm X (diag v) = mm X (diag w)"
  using assms by (intro mm_diag_right_cong) (auto simp: pattern_def)

lemma length_pow_t: "length (pow_t d p) = length d"
  by (simp add: pow_t_def)

lemma HGNN_init_real:
  assumes rel: "is_relation H"
  shows "HGNN_init H = Some (float_sp (HGNN_real H))"
proof -
  define d_V where "d_V = sum_sp H 1"
  define d_E where "d_E = sum_sp H 0"
  define s_V where "s_V = map (\<lambda>x. x powr (- (1 / 2))) d_V"
  define s_E where "s_E = map (\<lambda>x. x powr (- 1)) d_E"
  define B :: "real spmat" where "B = identity (ncols H, ncols H)"
  define M1 where "M1 = mm (diag s_V) H"
  define M2 where "M2 = mm M1 B"
  define M3 where "M3 = mm M2 (diag s_E)"
  define M4 where "M4 = mm M3 (transpose_sp H)"
  have lens: "length d_V = nrows H" "length d_E = ncols H"
    by (simp_all add: d_V_def d_E_def length_sum_sp)
  have rows: "pow_t d_V (- (1 / 2)) ! fst p = map Fin s_V ! fst p" if "p \<in> set (pattern H)" for p
    using row_degree_pos [OF rel that] by (simp add: pow_t_def s_V_def d_V_def pow_pos)
  have cols: "pow_t d_E (- 1) ! snd p = map Fin s_E ! snd p" if "p \<in> set (pattern H)" for p
    using col_degree_pos [OF rel that] by (simp add: pow_t_def s_E_def d_E_def pow_pos)
  have step1: "mm (diag (pow_t d_V (- (1 / 2)))) (float_sp H) = float_sp M1"
  proof -
    have "mm (diag (pow_t d_V (- (1 / 2)))) (float_sp H) = mm (diag (map Fin s_V)) (float_sp H)"
    proof (rule mm_diag_left_pattern)
      show "length (pow_t d_V (- (1 / 2))) = length (map Fin s_V)"
        by (simp add: pow_t_def s_V_def)
      show "\<forall>p\<in>set (pattern (float_sp H)). pow_t d_V (- (1 / 2)) ! fst p = map Fin s_V ! fst p"
        using rows by simp
    qed
    then show ?thesis by (simp add: diag_Fin mm_float M1_def)
  qed
  have step2: "mm (float_sp M1) (identity (ncols H, ncols H)) = float_sp M2"
    by (simp add: identity_float [of "(ncols H, ncols H)"] mm_float M2_def B_def)
  have pat2: "set (pattern M2) \<subseteq> set (pattern H)"
    by (auto simp: M2_def M1_def B_def pattern_mm pattern_diag pattern_identity)
  have step3: "mm (float_sp M2) (diag (pow_t d_E (- 1))) = float_sp M3"
  proof -
    have "mm (float_sp M2) (diag (pow_t d_E (- 1))) = mm (float_sp M2) (diag (map Fin s_E))"
    proof (rule mm_diag_right_pattern)
      show "length (pow_t d_E (- 1)) = length (map Fin s_E)"
        by (simp add: pow_t_def s_E_def)
      show "\<forall>p\<in>set (pattern (float_sp M2)). pow_t d_E (- 1) ! snd p = map Fin s_E ! snd p"
        using pat2 cols by auto
    qed
    then show ?thesis by (simp add: diag_Fin mm_float M3_def)
  qed
  have step4: "mm (float_sp M3) (transpose_sp (float_sp H)) = float_sp M4"
    by (simp add: transpose_float mm_float M4_def)
  have pat4: "\<forall>p\<in>set (pattern M4). \<exists>j. (snd p, j) \<in> set (pattern H)"
    by (auto simp: M4_def pattern_mm pattern_transpose)
  have step5: "mm (float_sp M4) (diag (pow_t d_V (- (1 / 2)))) = float_sp (mm M4 (diag s_V))"
  proof -
    have same: "pow_t d_V (- (1 / 2)) ! snd p = map Fin s_V ! snd p" if "p \<in> set (pattern M4)" for p
    proof -
      from pat4 that obtain j where "(snd p, j) \<in> set (pattern H)" by blast
      from rows [OF this] show ?thesis by simp
    qed
    have "mm (float_sp M4) (diag (pow_t d_V (- (1 / 2)))) = mm (float_sp M4) (diag (map Fin s_V))"
    proof (rule mm_diag_right_pattern)
      show "length (pow_t d_V (- (1 / 2))) = length (map Fin s_V)"
        by (simp add: pow_t_def s_V_def)
      show "\<forall>p\<in>set (pattern (float_sp M4)). pow_t d_V (- (1 / 2)) ! snd p = map Fin s_V ! snd p"
        using same by simp
    qed
    then show ?thesis by (simp add: diag_Fin mm_float)
  qed
  have real: "HGNN_real H = mm M4 (diag s_V)"
    unfolding HGNN_real_def Let_def M4_def M3_def M2_def M1_def B_def s_V_def s_E_def d_V_def d_E_def
    by (rule refl)
  have sh: "ncols M1 = ncols H" "ncols M2 = ncols H" "ncols M3 = ncols H" "ncols M4 = nrows H"
    by (simp_all add: M1_def M2_def M3_def M4_def B_def s_E_def lens)
  have "HGNN_init H = Some (float_sp (mm M4 (diag s_V)))"
    unfolding HGNN_init_def Let_def matmul_def d_V_def [symmetric] d_E_def [symmetric]
    by (simp add: length_pow_t lens sh step1 step2 step3 step4 step5)
  then show ?thesis by (simp only: real)
qed

section \<open>Dense entries of the hypergraph operator\<close>

lemma row_degree_dense:
  assumes "wf_sp (A :: real spmat)" "i < nrows A"
  shows "sum_sp A 1 ! i = (\<Sum>j<ncols A. to_dense A i j)"
proof -
  have cols: "\<forall>e\<in>set (ents A). snd (fst e) < ncols A"
    using assms(1) by (auto simp: wf_sp_def pattern_def list_all_iff)
  have "sum_sp A 1 ! i = (\<Sum>e\<leftarrow>filter (\<lambda>e. fst (fst e) = i) (ents A). snd e * 1)"
    using assms(2) by (simp add: sum_sp_def)
  also have "\<dots> = (\<Sum>j<ncols A. entry_sum (ents A) (i, j) * 1)"
    by (rule row_sum_as_sum [OF cols, where g = "\<lambda>j. 1"])
  finally show ?thesis by (simp add: to_dense_def)
qed

lemma sum_sp_transpose: "sum_sp (transpose_sp A) 1 = sum_sp A 0"
proof -
  have "map snd (filter (\<lambda>e. fst (fst e) = j) (map (\<lambda>e. ((snd (fst e), fst (fst e)), snd e)) es))
      = map snd (filter (\<lambda>e. snd (fst e) = j) es)" for j and es :: "((nat \<times> nat) \<times> 'a) list"
    by (induction es) auto
  then show ?thesis by (simp add: sum_sp_def transpose_sp_def)
qed

lemma col_degree_dense:
  assumes "wf_sp (A :: real spmat)" "j < ncols A"
  shows "sum_sp A 0 ! j = (\<Sum>i<nrows A. to_dense A i j)"
proof -
  have "sum_sp A 0 ! j = sum_sp (transpose_sp A) 1 ! j"
    by (simp only: sum_sp_transpose)
  also have "\<dots> = (\<Sum>i<nrows A. to_dense A i j)"
    using row_degree_dense [of "transpose_sp A" j] assms by (simp add: to_dense_transpose)
  finally show ?thesis .
qed

lemma sum_delta_left:
  fixes f :: "nat \<Rightarrow> real"
  shows "(\<Sum>j<n. (if i = j \<and> P i then s else 0) * f j) = (if i < n \<and> P i then s * f i else 0)"
proof -
  have "(\<Sum>j<n. (if i = j \<and> P i then s else 0) * f j) = (\<Sum>j<n. if j = i then (if P i then s * f j else 0) else 0)"
    by (intro sum.cong) auto
  then show ?thesis by simp
qed

lemma sum_delta_right:
  fixes f :: "nat \<Rightarrow> real"
  shows "(\<Sum>j<n. f j * (if j = k \<and> P j then s j else 0)) = (if k < n \<and> P k then f k * s k else 0)"
proof -
  have "(\<Sum>j<n. f j * (if j = k \<and> P j then s j else 0)) = (\<Sum>j<n. if j = k then (if P k then f j * s k else 0) else 0)"
    by (intro sum.cong) auto
  then show ?thesis by simp
qed

lemma wf_relation: "is_relation H \<Longrightarrow> wf_sp H"
  by (simp add: is_relation_def)

lemma to_dense_mm_diag_left:
  fixes X :: "real spmat"
  shows "to_dense (mm (diag v) X) i k = (if i < length v then v ! i * to_dense X i k else 0)"
proof -
  have "to_dense (mm (diag v) X) i k
      = (\<Sum>j<length v. (if i = j \<and> i < length v then v ! i else 0) * to_dense X j k)"
    by (simp add: to_dense_mm to_dense_diag)
  also have "\<dots> = (if i < length v \<and> i < length v then v ! i * to_dense X i k else 0)"
    by (rule sum_delta_left)
  finally show ?thesis by simp
qed

lemma to_dense_mm_diag_right:
  fixes X :: "real spmat"
  assumes "wf_sp X" "length v = ncols X"
  shows "to_dense (mm X (diag v)) i k = (if k < length v then to_dense X i k * v ! k else 0)"
proof -
  have "to_dense (mm X (diag v)) i k
      = (\<Sum>j<length v. to_dense X i j * (if j = k \<and> j < length v then v ! j else 0))"
    using assms by (simp add: to_dense_mm to_dense_diag)
  also have "\<dots> = (if k < length v \<and> k < length v then to_dense X i k * v ! k else 0)"
    by (rule sum_delta_right)
  finally show ?thesis by simp
qed

lemma to_dense_mm_identity_right:
  fixes X :: "real spmat"
  assumes "wf_sp X" "n = ncols X"
  shows "to_dense (mm X (identity (n, n))) i k = (if k < n then to_dense X i k else 0)"
proof -
  have "to_dense (mm X (identity (n, n))) i k
      = (\<Sum>j<n. to_dense X i j * (if j = k \<and> j < n then 1 else 0))"
    using assms by (simp add: to_dense_mm to_dense_identity)
  also have "\<dots> = (if k < n \<and> k < n then to_dense X i k * 1 else 0)"
    by (rule sum_delta_right [where s = "\<lambda>j. 1"])
  finally show ?thesis by simp
qed

text \<open>The dense entries of the real-valued hypergraph operator, in closed form.\<close>

lemma to_dense_HGNN_real:
  assumes wf: "wf_sp H"
  shows "to_dense (HGNN_real H) i k =
     (if i < nrows H \<and> k < nrows H
      then (\<Sum>j<ncols H. (sum_sp H 1 ! i) powr (- (1 / 2)) * to_dense H i j
                * (sum_sp H 0 ! j) powr (- 1) * to_dense H k j) * (sum_sp H 1 ! k) powr (- (1 / 2))
      else 0)"
proof -
  define s_V where "s_V = map (\<lambda>x. x powr (- (1 / 2))) (sum_sp H 1)"
  define s_E where "s_E = map (\<lambda>x. x powr (- 1)) (sum_sp H 0)"
  define M1 where "M1 = mm (diag s_V) H"
  define M2 where "M2 = mm M1 (identity (ncols H, ncols H))"
  define M3 where "M3 = mm M2 (diag s_E)"
  define M4 where "M4 = mm M3 (transpose_sp H)"
  have len: "length s_V = nrows H" "length s_E = ncols H"
    by (simp_all add: s_V_def s_E_def sum_sp_def)
  have wfs: "wf_sp M1" "wf_sp M2" "wf_sp M3" "wf_sp M4"
    using wf by (simp_all add: M1_def M2_def M3_def M4_def wf_mm)
  have sh: "ncols M1 = ncols H" "ncols M2 = ncols H" "ncols M3 = ncols H" "ncols M4 = nrows H"
    by (simp_all add: M1_def M2_def M3_def M4_def len)
  have d1: "to_dense M1 a b = (if a < nrows H then s_V ! a * to_dense H a b else 0)" for a b
    unfolding M1_def by (simp add: to_dense_mm_diag_left len)
  have d2: "to_dense M2 a b = (if b < ncols H then to_dense M1 a b else 0)" for a b
    unfolding M2_def by (simp add: to_dense_mm_identity_right wfs sh)
  have d3: "to_dense M3 a b = (if b < ncols H then to_dense M2 a b * s_E ! b else 0)" for a b
    unfolding M3_def by (simp add: to_dense_mm_diag_right wfs sh len)
  have d4: "to_dense M4 a b = (\<Sum>j<ncols H. to_dense M3 a j * to_dense H b j)" for a b
    unfolding M4_def by (simp add: to_dense_mm wfs to_dense_transpose sh)
  have d5: "to_dense (mm M4 (diag s_V)) a b = (if b < nrows H then to_dense M4 a b * s_V ! b else 0)" for a b
    by (simp add: to_dense_mm_diag_right wfs sh len)
  have real: "HGNN_real H = mm M4 (diag s_V)"
    unfolding HGNN_real_def Let_def M4_def M3_def M2_def M1_def s_V_def s_E_def
    by (rule refl)
  have nth: "a < nrows H \<Longrightarrow> s_V ! a = (sum_sp H 1 ! a) powr (- (1 / 2))"
       "b < ncols H \<Longrightarrow> s_E ! b = (sum_sp H 0 ! b) powr (- 1)" for a b
    unfolding s_V_def s_E_def by (simp_all add: sum_sp_def del: powr_minus)
  show ?thesis
  proof (cases "i < nrows H \<and> k < nrows H")
    case False
    then show ?thesis unfolding real d5 d4 d3 d2 d1 by auto
  next
    case True
    have "to_dense (HGNN_real H) i k
        = (\<Sum>j<ncols H. s_V ! i * to_dense H i j * s_E ! j * to_dense H k j) * s_V ! k"
      unfolding real d5 d4 d3 d2 d1 using True by simp
    also have "\<dots> = (\<Sum>j<ncols H. (sum_sp H 1 ! i) powr (- (1 / 2)) * to_dense H i j
                * (sum_sp H 0 ! j) powr (- 1) * to_dense H k j) * (sum_sp H 1 ! k) powr (- (1 / 2))"
      using True nth by simp
    finally show ?thesis using True by simp
  qed
qed

section \<open>The hypergraph operator and the formula of the specification\<close>

lemma mat_mul_diag_left:
  "mat_mul n (diag_mat d) X i k = (if i < n then d i * X i k else 0)"
  using sum_delta_left [where n = n and i = i and P = "\<lambda>_. True" and s = "d i" and f = "\<lambda>j. X j k"]
  by (simp add: mat_mul_def diag_mat_def)

lemma mat_mul_diag_right:
  "mat_mul n X (diag_mat d) i k = (if k < n then X i k * d k else 0)"
  using sum_delta_right [where n = n and k = k and P = "\<lambda>_. True" and s = d and f = "\<lambda>j. X i j"]
  by (simp add: mat_mul_def diag_mat_def)

lemma spec_hypergraph_operator_closed:
  "spec_hypergraph_operator N M R w i k =
     (if i < N \<and> k < N
      then (\<Sum>j<M. (\<Sum>j<M. R i j * w j) powr (- (1 / 2)) * R i j * w j
                * (\<Sum>i<N. R i j) powr (- 1) * R k j) * (\<Sum>j<M. R k j * w j) powr (- (1 / 2))
      else 0)"
proof -
  define dr where "dr = (\<lambda>i. (\<Sum>j<M. R i j * w j) powr (- (1 / 2)))"
  define dc where "dc = (\<lambda>j. (\<Sum>i<N. R i j) powr (- 1))"
  have "spec_hypergraph_operator N M R w i k
      = mat_mul N (mat_mul M (mat_mul M (mat_mul M (mat_mul N (diag_mat dr) R) (diag_mat w)) (diag_mat dc))
          (\<lambda>j i. R i j)) (diag_mat dr) i k"
    unfolding spec_hypergraph_operator_def Let_def dr_def dc_def by (rule refl)
  also have "\<dots> = (if k < N then (\<Sum>j<M. (if i < N then dr i * R i j else 0) * w j * dc j * R k j) * dr k else 0)"
    unfolding mat_mul_diag_right mat_mul_diag_left
    by (simp add: mat_mul_def)
  also have "\<dots> = (if i < N \<and> k < N then (\<Sum>j<M. dr i * R i j * w j * dc j * R k j) * dr k else 0)"
    by simp
  finally show ?thesis unfolding dr_def dc_def .
qed

lemma HGNN_real_is_spec:
  assumes "wf_sp H"
  shows "to_dense (HGNN_real H) i k
       = spec_hypergraph_operator (nrows H) (ncols H) (to_dense H) (\<lambda>j. 1) i k"
proof (cases "i < nrows H \<and> k < nrows H")
  case False
  have "to_dense (HGNN_real H) i k = 0"
    by (simp only: to_dense_HGNN_real [OF assms] if_not_P [OF False])
  moreover have "spec_hypergraph_operator (nrows H) (ncols H) (to_dense H) (\<lambda>j. 1) i k = 0"
    by (simp only: spec_hypergraph_operator_closed if_not_P [OF False])
  ultimately show ?thesis by simp
next
  case True
  then have i: "i < nrows H" and k: "k < nrows H" by simp_all
  have dr: "sum_sp H 1 ! a = (\<Sum>j<ncols H. to_dense H a j * 1)" if "a < nrows H" for a
    using row_degree_dense [OF assms that] by simp
  have dc: "sum_sp H 0 ! j = (\<Sum>i<nrows H. to_dense H i j)" if "j < ncols H" for j
    using col_degree_dense [OF assms that] .
  have "to_dense (HGNN_real H) i k
      = (\<Sum>j<ncols H. (sum_sp H 1 ! i) powr (- (1 / 2)) * to_dense H i j
                * (sum_sp H 0 ! j) powr (- 1) * to_dense H k j) * (sum_sp H 1 ! k) powr (- (1 / 2))"
    by (simp only: to_dense_HGNN_real [OF assms] if_P [OF True])
  also have "\<dots> = (\<Sum>j<ncols H. (\<Sum>j<ncols H. to_dense H i j * 1) powr (- (1 / 2)) * to_dense H i j * 1
                * (\<Sum>i<nrows H. to_dense H i j) powr (- 1) * to_dense H k j)
                * (\<Sum>j<ncols H. to_dense H k j * 1) powr (- (1 / 2))"
  proof -
    have "(\<Sum>j<ncols H. (sum_sp H 1 ! i) powr (- (1 / 2)) * to_dense H i j
                * (sum_sp H 0 ! j) powr (- 1) * to_dense H k j)
        = (\<Sum>j<ncols H. (\<Sum>j<ncols H. to_dense H i j * 1) powr (- (1 / 2)) * to_dense H i j * 1
                * (\<Sum>i<nrows H. to_dense H i j) powr (- 1) * to_dense H k j)"
    proof (rule sum.cong [OF refl])
      fix j assume "j \<in> {..<ncols H}"
      then have "j < ncols H" by simp
      then show "(sum_sp H 1 ! i) powr (- (1 / 2)) * to_dense H i j
                * (sum_sp H 0 ! j) powr (- 1) * to_dense H k j
         = (\<Sum>j<ncols H. to_dense H i j * 1) powr (- (1 / 2)) * to_dense H i j * 1
                * (\<Sum>i<nrows H. to_dense H i j) powr (- 1) * to_dense H k j"
        by (simp only: dc dr [OF i] mult_1_right)
    qed
    then show ?thesis by (simp only: dr [OF k])
  qed
  also have "\<dots> = spec_hypergraph_operator (nrows H) (ncols H) (to_dense H) (\<lambda>j. 1) i k"
    by (simp only: spec_hypergraph_operator_closed if_P [OF True])
  finally show ?thesis .
qed

lemma from_coo_shape: "from_coo row col (Some (N, M)) = Some H \<Longrightarrow> nrows H = N \<and> ncols H = M"
  by (auto simp: from_coo_def split: if_splits)

text \<open>
  C1. For an incidence relation over an N by M matrix in which every row degree and
  every column degree is at least 1, \<open>HGNN.__init__\<close> returns an N by N operator whose
  dense entries are those of
  \<open>diag(d_V)^(-1/2) \<cdot> H \<cdot> B \<cdot> diag(d_E)^(-1) \<cdot> H^T \<cdot> diag(d_V)^(-1/2)\<close>, with
  \<open>d_V[i]\<close> the sum over \<open>j\<close> of \<open>H[i,j]\<close> times the weight 1, \<open>B\<close> the identity and
  \<open>d_E[j]\<close> the sum over \<open>i\<close> of \<open>H[i,j]\<close>.
\<close>

theorem hgnn_operator_formula:
  assumes "from_coo row col (Some (N, M)) = Some H"
    and "list_all (\<lambda>d. 1 \<le> d) (sum_sp H 1)"
    and "list_all (\<lambda>d. 1 \<le> d) (sum_sp H 0)"
  shows "\<exists>L. HGNN_init H = Some L \<and> shape L = (N, N)
           \<and> (\<forall>i k. to_dense L i k = Fin (spec_hypergraph_operator N M (to_dense H) (\<lambda>j. 1) i k))"
proof -
  have rel: "is_relation H" using assms(1) by (rule from_coo_relation)
  have sh: "nrows H = N" "ncols H = M" using from_coo_shape [OF assms(1)] by simp_all
  have "shape (float_sp (HGNN_real H)) = (N, N)"
    by (simp add: shape_def HGNN_real_def Let_def sum_sp_def sh)
  moreover have "to_dense (float_sp (HGNN_real H)) i k
      = Fin (spec_hypergraph_operator N M (to_dense H) (\<lambda>j. 1) i k)" for i k
    using HGNN_real_is_spec [OF wf_relation [OF rel]] by (simp add: to_dense_float sh)
  ultimately show ?thesis
    using HGNN_init_real [OF rel] by simp
qed

theorem hgnn_operator_formula_witness:
  "from_coo [0, 1] [0, 0] (Some (2, 1)) = Some two_nodes_one_edge
   \<and> sum_sp two_nodes_one_edge 1 = [1, 1]
   \<and> sum_sp two_nodes_one_edge 0 = [2]
   \<and> (\<exists>L. HGNN_init two_nodes_one_edge = Some L \<and> shape L = (2, 2)
          \<and> to_dense L 0 1 = Fin (spec_hypergraph_operator 2 1 (to_dense two_nodes_one_edge) (\<lambda>j. 1) 0 1))"
proof -
  have h1: "from_coo [0, 1] [0, 0] (Some (2, 1)) = Some two_nodes_one_edge"
    by (simp add: from_coo_def two_nodes_one_edge_def)
  have h2: "sum_sp two_nodes_one_edge 1 = [1, 1]"
    by (simp add: sum_sp_def two_nodes_one_edge_def upt_rec)
  have h3: "sum_sp two_nodes_one_edge 0 = [2]"
    by (simp add: sum_sp_def two_nodes_one_edge_def upt_rec)
  have "\<exists>L. HGNN_init two_nodes_one_edge = Some L \<and> shape L = (2, 2)
           \<and> (\<forall>i k. to_dense L i k = Fin (spec_hypergraph_operator 2 1 (to_dense two_nodes_one_edge) (\<lambda>j. 1) i k))"
    by (rule hgnn_operator_formula [OF h1]) (use h2 h3 in simp_all)
  then show ?thesis using h1 h2 h3 by blast
qed

section \<open>The plain-graph operator\<close>

lemma shape_plus [simp]: "nrows (plus_sp A B) = nrows A" "ncols (plus_sp A B) = ncols A"
  by (simp_all add: plus_sp_def)

lemma to_dense_plus: "to_dense (plus_sp A B) i j = to_dense A i j + to_dense B i j"
  by (simp add: to_dense_def plus_sp_def entry_sum_coalesce entry_sum_append)

lemma pattern_plus: "set (pattern (plus_sp A B)) = set (pattern A) \<union> set (pattern B)"
  by (simp add: pattern_def plus_sp_def map_fst_coalesce)

lemma wf_plus: "wf_sp A \<Longrightarrow> wf_sp B \<Longrightarrow> shape A = shape B \<Longrightarrow> wf_sp (plus_sp A B)"
  unfolding wf_sp_def list_all_iff pattern_plus by (auto simp: shape_def)

lemma relation_entry_count:
  assumes "is_relation A"
  shows "to_dense A i j = real (length (filter (\<lambda>e. fst e = (i, j)) (ents A)))"
  unfolding to_dense_def entry_sum_def
  using assms by (intro sum_list_ones) (auto simp: is_relation_def list_all_iff)

lemma relation_nonneg: "is_relation A \<Longrightarrow> 0 \<le> to_dense A i j"
  by (simp add: relation_entry_count)

lemma relation_pos_iff: "is_relation A \<Longrightarrow> 0 < to_dense A i j \<longleftrightarrow> (i, j) \<in> set (pattern A)"
  by (force simp: relation_entry_count pattern_def filter_empty_conv image_iff)

lemma pow_sp_diag: "pow_sp (diag d) p = diag (pow_t d p)"
  by (simp add: pow_sp_def diag_def pow_t_def)

lemma pow_t_pos: "\<forall>x\<in>set d. 0 < x \<Longrightarrow> pow_t d p = map Fin (map (\<lambda>x. x powr p) d)"
  by (simp add: pow_t_def pow_pos)

text \<open>Every column of \<open>A + I\<close> holds its self loop: the degrees are at least 1.\<close>

lemma augmented_degree:
  assumes rel: "is_relation A" and sq: "nrows A = ncols A" and j: "j < ncols A"
  shows "sum_sp (plus_sp A (identity (shape A))) 0 ! j = (\<Sum>i<nrows A. to_dense A i j) + 1"
proof -
  let ?I = "identity (shape A) :: real spmat"
  have wf: "wf_sp (plus_sp A ?I)"
    using rel by (intro wf_plus) (simp_all add: is_relation_def shape_def)
  have "sum_sp (plus_sp A ?I) 0 ! j = (\<Sum>i<nrows A. to_dense A i j + to_dense ?I i j)"
    using col_degree_dense [OF wf] j by (simp add: to_dense_plus)
  also have "\<dots> = (\<Sum>i<nrows A. to_dense A i j) + (\<Sum>i<nrows A. if i = j then 1 else 0)"
    using sq j by (simp add: sum.distrib shape_def to_dense_identity cong: if_cong)
  also have "(\<Sum>i<nrows A. if i = j then 1 else 0) = (1::real)"
    using sq j by simp
  finally show ?thesis .
qed

lemma augmented_degree_ge1:
  assumes rel: "is_relation A" and sq: "nrows A = ncols A"
  shows "\<forall>d\<in>set (sum_sp (plus_sp A (identity (shape A))) 0). 1 \<le> d"
proof
  fix d assume "d \<in> set (sum_sp (plus_sp A (identity (shape A))) 0)"
  then obtain j where j: "j < ncols A" and d: "d = sum_sp (plus_sp A (identity (shape A))) 0 ! j"
    by (auto simp: in_set_conv_nth length_sum_sp)
  have "0 \<le> (\<Sum>i<nrows A. to_dense A i j)"
    by (intro sum_nonneg relation_nonneg [OF rel])
  then show "1 \<le> d"
    unfolding d augmented_degree [OF rel sq j] by simp
qed

lemma GCNLayer_forward_real:
  assumes rel: "is_relation A" and sq: "nrows A = ncols A"
  shows "GCNLayer_forward A = Some (float_sp (GCN_real A))"
proof -
  define A_hat where "A_hat = plus_sp A (identity (shape A))"
  define d where "d = sum_sp A_hat 0"
  define s where "s = map (\<lambda>x. x powr (- (1 / 2))) d"
  have len: "length d = ncols A"
    by (simp add: d_def A_hat_def length_sum_sp)
  have "\<forall>x\<in>set d. 0 < x"
    using augmented_degree_ge1 [OF rel sq] unfolding d_def A_hat_def by fastforce
  then have scal: "pow_sp (diag d) (- (1 / 2)) = float_sp (diag s)"
    by (simp only: pow_sp_diag pow_t_pos s_def diag_Fin)
  have real: "GCN_real A = mm (mm (diag s) A_hat) (diag s)"
    unfolding GCN_real_def Let_def s_def d_def A_hat_def by (rule refl)
  have lens: "length s = ncols A"
    by (simp add: s_def len)
  have shh: "nrows A_hat = nrows A" "ncols A_hat = ncols A"
    by (simp_all add: A_hat_def)
  have e1: "add_sp A (identity (shape A)) = Some A_hat"
    by (simp add: add_sp_def shape_def A_hat_def)
  have e2: "matmul (pow_sp (diag d) (- (1 / 2))) (float_sp A_hat) = Some (float_sp (mm (diag s) A_hat))"
    by (simp add: matmul_def scal mm_float lens shh sq)
  have e3: "matmul (float_sp (mm (diag s) A_hat)) (pow_sp (diag d) (- (1 / 2)))
          = Some (float_sp (mm (mm (diag s) A_hat) (diag s)))"
    by (simp add: matmul_def scal mm_float lens shh)
  have "GCNLayer_forward A = Some (float_sp (mm (mm (diag s) A_hat) (diag s)))"
    unfolding GCNLayer_forward_def Let_def
    by (simp add: e1 d_def [symmetric] e2 e3)
  then show ?thesis by (simp only: real)
qed

lemma to_dense_GCN_real:
  assumes wf: "wf_sp A" and sq: "nrows A = ncols A"
  shows "to_dense (GCN_real A) i k =
     (if i < nrows A \<and> k < nrows A
      then (sum_sp (plus_sp A (identity (shape A))) 0 ! i) powr (- (1 / 2))
             * (to_dense A i k + (if i = k then 1 else 0))
             * (sum_sp (plus_sp A (identity (shape A))) 0 ! k) powr (- (1 / 2))
      else 0)"
proof -
  define A_hat where "A_hat = plus_sp A (identity (shape A))"
  define s where "s = map (\<lambda>x. x powr (- (1 / 2))) (sum_sp A_hat 0)"
  have len: "length s = nrows A"
    by (simp add: s_def A_hat_def length_sum_sp sq)
  have wfh: "wf_sp A_hat"
    unfolding A_hat_def using wf by (intro wf_plus) (simp_all add: shape_def)
  have wf1: "wf_sp (mm (diag s) A_hat)"
    using wfh by (simp add: wf_mm)
  have shh: "nrows A_hat = nrows A" "ncols A_hat = ncols A"
    by (simp_all add: A_hat_def)
  have real: "GCN_real A = mm (mm (diag s) A_hat) (diag s)"
    unfolding GCN_real_def Let_def s_def A_hat_def by (rule refl)
  have nth: "a < nrows A \<Longrightarrow> s ! a = (sum_sp A_hat 0 ! a) powr (- (1 / 2))" for a
    unfolding s_def by (simp add: length_sum_sp A_hat_def sq del: powr_minus)
  have hat: "to_dense A_hat a b = to_dense A a b + (if a = b \<and> a < nrows A then 1 else 0)" for a b
    by (simp add: A_hat_def to_dense_plus shape_def to_dense_identity sq)
  have "to_dense (GCN_real A) i k
      = (if k < nrows A then (if i < nrows A then s ! i * to_dense A_hat i k else 0) * s ! k else 0)"
    unfolding real
    by (simp add: to_dense_mm_diag_right [OF wf1] to_dense_mm_diag_left len shh sq)
  also have "\<dots> = (if i < nrows A \<and> k < nrows A
      then (sum_sp A_hat 0 ! i) powr (- (1 / 2)) * (to_dense A i k + (if i = k then 1 else 0))
             * (sum_sp A_hat 0 ! k) powr (- (1 / 2)) else 0)"
    by (simp add: nth hat del: powr_minus)
  finally show ?thesis unfolding A_hat_def .
qed

section \<open>The plain-graph operator and its degree vector\<close>

lemma graph_operator_closed:
  "mat_mul N (mat_mul N (diag_mat d) X) (diag_mat d) i k
     = (if i < N \<and> k < N then d i * X i k * d k else 0)"
  by (simp add: mat_mul_diag_right mat_mul_diag_left)

lemma augmented_column_sum:
  fixes A :: "nat \<Rightarrow> nat \<Rightarrow> real"
  assumes "j < N"
  shows "(\<Sum>i<N. A i j + (if i = j then 1 else 0)) = (\<Sum>i<N. A i j) + 1"
  using assms by (simp add: sum.distrib)

lemma GCN_real_is_column_operator:
  assumes rel: "is_relation A" and sq: "nrows A = ncols A"
  shows "to_dense (GCN_real A) i k = column_graph_operator (nrows A) (to_dense A) i k"
proof (cases "i < nrows A \<and> k < nrows A")
  case False
  have "to_dense (GCN_real A) i k = 0"
    by (simp only: to_dense_GCN_real [OF wf_relation [OF rel] sq] if_not_P [OF False])
  moreover have "column_graph_operator (nrows A) (to_dense A) i k = 0"
    unfolding column_graph_operator_def Let_def
    by (simp only: graph_operator_closed if_not_P [OF False])
  ultimately show ?thesis by simp
next
  case True
  have deg: "sum_sp (plus_sp A (identity (shape A))) 0 ! a
           = (\<Sum>i<nrows A. to_dense A i a + (if i = a then 1 else 0))" if "a < nrows A" for a
    using augmented_degree [OF rel sq, of a] augmented_column_sum [OF that, where A = "to_dense A"] that sq
    by simp
  have "to_dense (GCN_real A) i k
      = (sum_sp (plus_sp A (identity (shape A))) 0 ! i) powr (- (1 / 2))
             * (to_dense A i k + (if i = k then 1 else 0))
             * (sum_sp (plus_sp A (identity (shape A))) 0 ! k) powr (- (1 / 2))"
    by (simp only: to_dense_GCN_real [OF wf_relation [OF rel] sq] if_P [OF True])
  also have "\<dots> = column_graph_operator (nrows A) (to_dense A) i k"
    unfolding column_graph_operator_def Let_def
    using True by (simp only: graph_operator_closed if_P [OF True] deg simp_thms if_True)
  finally show ?thesis .
qed

lemma from_coo_square:
  assumes "from_coo row col (Some (N, N)) = Some A"
  shows "is_relation A" "nrows A = ncols A" "nrows A = N" "ncols A = N"
  using from_coo_relation [OF assms] from_coo_shape [OF assms] by simp_all

lemma powr_half_square: "0 < (x::real) \<Longrightarrow> x powr (- (1 / 2)) * x powr (- (1 / 2)) = 1 / x"
proof -
  assume "0 < x"
  have "x powr (- (1 / 2)) * x powr (- (1 / 2)) = x powr (- (1 / 2) + - (1 / 2))"
    by (simp only: powr_add)
  also have "\<dots> = x powr (- 1)" by simp
  also have "\<dots> = 1 / x" using \<open>0 < x\<close> by (simp add: powr_minus_divide)
  finally show ?thesis .
qed

lemma from_coo_one_edge: "from_coo [0] [1] (Some (2, 2)) = Some one_edge"
  by (simp add: from_coo_def one_edge_def)

lemma one_edge_dense: "to_dense one_edge i j = (if i = 0 \<and> j = 1 then 1 else 0)"
  by (auto simp: to_dense_def entry_sum_def one_edge_def)

text \<open>
  C3 (as amended). For a square adjacency relation, \<open>GCNLayer.forward\<close> builds
  \<open>diag(degree)^(-1/2) \<cdot> (A+I) \<cdot> diag(degree)^(-1/2)\<close> with the self loops added before
  the degree is taken, where \<open>degree[j]\<close> is the column sum of \<open>A+I\<close> (the method takes
  \<open>A_hat.sum(0)\<close>), the sum over \<open>i\<close> of \<open>(A+I)[i,j]\<close>.
\<close>

theorem gcn_operator_formula:
  assumes "from_coo row col (Some (N, N)) = Some A"
  shows "\<exists>L. GCNLayer_forward A = Some L \<and> shape L = (N, N)
           \<and> (\<forall>i k. to_dense L i k = Fin (column_graph_operator N (to_dense A) i k))"
proof -
  note sq = from_coo_square [OF assms]
  have "shape (float_sp (GCN_real A)) = (N, N)"
    by (simp add: shape_def GCN_real_def Let_def sum_sp_def sq)
  moreover have "to_dense (float_sp (GCN_real A)) i k = Fin (column_graph_operator N (to_dense A) i k)" for i k
    using GCN_real_is_column_operator [OF sq(1,2)] by (simp add: to_dense_float sq)
  ultimately show ?thesis
    using GCNLayer_forward_real [OF sq(1,2)] by simp
qed

theorem gcn_operator_formula_witness:
  "from_coo [0] [1] (Some (2, 2)) = Some one_edge
   \<and> (\<exists>L. GCNLayer_forward one_edge = Some L \<and> shape L = (2, 2)
          \<and> to_dense L 0 0 = Fin (column_graph_operator 2 (to_dense one_edge) 0 0))"
  using gcn_operator_formula [OF from_coo_one_edge] from_coo_one_edge by blast

text \<open>
  The claim as first stated takes \<open>degree[i]\<close> to be the row sum of \<open>A+I\<close>. On the
  graph with the one edge stored at \<open>(0, 1)\<close> the row sums of \<open>A+I\<close> are 2 and 1 and
  the column sums are 1 and 2: the method returns 1 at \<open>(0, 0)\<close>, the row-sum formula
  gives one half.
\<close>

theorem gcn_row_degree_counterexample:
  "from_coo [0] [1] (Some (2, 2)) = Some one_edge
   \<and> (\<exists>L. GCNLayer_forward one_edge = Some L \<and> to_dense L 0 0 = Fin 1)
   \<and> spec_graph_operator 2 (to_dense one_edge) 0 0 = 1 / 2"
proof -
  have rel: "is_relation one_edge" and sq: "nrows one_edge = ncols one_edge"
    using from_coo_square [OF from_coo_one_edge] by simp_all
  have two: "{..<2::nat} = {0, 1}" by auto
  have "column_graph_operator 2 (to_dense one_edge) 0 0 = 1"
    unfolding column_graph_operator_def Let_def graph_operator_closed
    by (simp add: two one_edge_dense)
  moreover have "nrows one_edge = 2" by (simp add: one_edge_def)
  ultimately have "to_dense (float_sp (GCN_real one_edge)) 0 0 = Fin 1"
    using GCN_real_is_column_operator [OF rel sq, of 0 0] by (simp add: to_dense_float)
  moreover have "spec_graph_operator 2 (to_dense one_edge) 0 0 = 1 / 2"
    unfolding spec_graph_operator_def Let_def graph_operator_closed
    using powr_half_square [of 2] by (simp add: two one_edge_dense)
  ultimately show ?thesis
    using GCNLayer_forward_real [OF rel sq] from_coo_one_edge by simp
qed

section \<open>Symmetry\<close>

lemma from_coo_directed_cycle: "from_coo [0, 1, 2] [1, 2, 0] (Some (3, 3)) = Some directed_cycle"
  by (simp add: from_coo_def directed_cycle_def)

lemma from_coo_two_loops: "from_coo [0, 1] [0, 1] (Some (2, 2)) = Some two_loops"
  by (simp add: from_coo_def two_loops_def)

lemma from_coo_two_nodes_one_edge: "from_coo [0, 1] [0, 0] (Some (2, 1)) = Some two_nodes_one_edge"
  by (simp add: from_coo_def two_nodes_one_edge_def)

lemma directed_cycle_dense:
  "to_dense directed_cycle i j = (if (i, j) \<in> {(0, 1), (1, 2), (2, 0)} then 1 else 0)"
  by (auto simp: to_dense_def entry_sum_def directed_cycle_def)

lemma two_loops_dense: "to_dense two_loops i j = (if i = j \<and> i < 2 then 1 else 0)"
  by (auto simp: to_dense_def entry_sum_def two_loops_def)

lemma two_nodes_one_edge_degrees:
  "sum_sp two_nodes_one_edge 1 = [1, 1]" "sum_sp two_nodes_one_edge 0 = [2]"
  by (simp_all add: sum_sp_def two_nodes_one_edge_def upt_rec)

lemma HGNN_real_symmetric:
  assumes "wf_sp H"
  shows "to_dense (HGNN_real H) i k = to_dense (HGNN_real H) k i"
proof (cases "i < nrows H \<and> k < nrows H")
  case False
  then have False': "\<not> (k < nrows H \<and> i < nrows H)" by blast
  show ?thesis
    by (simp only: to_dense_HGNN_real [OF assms] if_not_P [OF False] if_not_P [OF False'])
next
  case True
  then have True': "k < nrows H \<and> i < nrows H" by simp
  have swap: "(\<Sum>j<ncols H. a * to_dense H i j * e j * to_dense H k j) * b
      = (\<Sum>j<ncols H. b * to_dense H k j * e j * to_dense H i j) * a" for a b :: real and e
    by (simp add: sum_distrib_left sum_distrib_right mult_ac)
  show ?thesis
    by (simp only: to_dense_HGNN_real [OF assms] if_P [OF True] if_P [OF True'] swap)
qed

lemma GCN_real_symmetric:
  assumes "wf_sp A" "nrows A = ncols A" "\<forall>i j. to_dense A i j = to_dense A j i"
  shows "to_dense (GCN_real A) i k = to_dense (GCN_real A) k i"
proof (cases "i < nrows A \<and> k < nrows A")
  case False
  then have False': "\<not> (k < nrows A \<and> i < nrows A)" by blast
  show ?thesis
    by (simp only: to_dense_GCN_real [OF assms(1,2)] if_not_P [OF False] if_not_P [OF False'])
next
  case True
  then have True': "k < nrows A \<and> i < nrows A" by simp
  have sym: "to_dense A i k = to_dense A k i" using assms(3) by simp
  have swap: "a * (x + (if i = k then 1 else 0)) * b = b * (x + (if k = i then 1 else 0)) * a"
    for a b x :: real
    by simp
  show ?thesis
    by (simp only: to_dense_GCN_real [OF assms(1,2)] if_P [OF True] if_P [OF True'] sym swap)
qed

text \<open>
  C2 (as amended). The hypergraph operator of \<open>HGNN.__init__\<close> is symmetric for every
  incidence relation without a zero-degree row or column; the plain-graph operator of
  \<open>GCNLayer.forward\<close> is symmetric for every square adjacency relation that is itself
  symmetric.
\<close>

theorem operator_symmetric:
  assumes "from_coo row col (Some (N, M)) = Some H"
    and "list_all (\<lambda>d. 1 \<le> d) (sum_sp H 1)"
    and "list_all (\<lambda>d. 1 \<le> d) (sum_sp H 0)"
    and "from_coo row' col' (Some (K, K)) = Some A"
    and "\<forall>i j. to_dense A i j = to_dense A j i"
  shows "(\<exists>L. HGNN_init H = Some L \<and> (\<forall>i j. to_dense L i j = to_dense L j i))
       \<and> (\<exists>L. GCNLayer_forward A = Some L \<and> (\<forall>i j. to_dense L i j = to_dense L j i))"
proof -
  have rel: "is_relation H" using assms(1) by (rule from_coo_relation)
  note sq = from_coo_square [OF assms(4)]
  have "\<forall>i j. to_dense (float_sp (HGNN_real H)) i j = to_dense (float_sp (HGNN_real H)) j i"
    using HGNN_real_symmetric [OF wf_relation [OF rel]] by (simp add: to_dense_float)
  moreover have "\<forall>i j. to_dense (float_sp (GCN_real A)) i j = to_dense (float_sp (GCN_real A)) j i"
    using GCN_real_symmetric [OF wf_relation [OF sq(1)] sq(2) assms(5)] by (simp add: to_dense_float)
  ultimately show ?thesis
    using HGNN_init_real [OF rel] GCNLayer_forward_real [OF sq(1,2)] by simp
qed

lemma from_coo_two_way_edge: "from_coo [0, 1] [1, 0] (Some (2, 2)) = Some two_way_edge"
  by (simp add: from_coo_def two_way_edge_def)

lemma two_way_edge_dense:
  "to_dense two_way_edge i j = (if (i, j) \<in> {(0, 1), (1, 0)} then 1 else 0)"
  by (auto simp: to_dense_def entry_sum_def two_way_edge_def)

lemma two_nodes_one_edge_dense:
  "to_dense two_nodes_one_edge i j = (if j = 0 \<and> i < 2 then 1 else 0)"
  by (auto simp: to_dense_def entry_sum_def two_nodes_one_edge_def)

lemma two_nodes_one_edge_operator:
  "to_dense (HGNN_real two_nodes_one_edge) 0 1 = 1 / 2"
proof -
  have wf: "wf_sp two_nodes_one_edge"
    using from_coo_relation [OF from_coo_two_nodes_one_edge] by (rule wf_relation)
  have sh: "nrows two_nodes_one_edge = 2" "ncols two_nodes_one_edge = 1"
    by (simp_all add: two_nodes_one_edge_def)
  have "spec_hypergraph_operator 2 1 (to_dense two_nodes_one_edge) (\<lambda>j. 1) 0 1 = 1 / 2"
    unfolding spec_hypergraph_operator_closed
    by (simp add: two_nodes_one_edge_dense powr_minus_divide)
  then show ?thesis
    using HGNN_real_is_spec [OF wf, of 0 1] by (simp add: sh)
qed

lemma two_way_edge_operator:
  "to_dense (GCN_real two_way_edge) 0 1 = 1 / 2"
proof -
  have rel: "is_relation two_way_edge" and sq: "nrows two_way_edge = ncols two_way_edge"
    using from_coo_square [OF from_coo_two_way_edge] by simp_all
  have two: "{..<2::nat} = {0, 1}" by auto
  have n: "nrows two_way_edge = 2" by (simp add: two_way_edge_def)
  have "column_graph_operator 2 (to_dense two_way_edge) 0 1 = 1 / 2"
    unfolding column_graph_operator_def Let_def graph_operator_closed
    using powr_half_square [of 2] by (simp add: two two_way_edge_dense)
  then show ?thesis
    using GCN_real_is_column_operator [OF rel sq, of 0 1] by (simp add: n)
qed

theorem operator_symmetric_witness:
  "from_coo [0, 1] [0, 0] (Some (2, 1)) = Some two_nodes_one_edge
   \<and> sum_sp two_nodes_one_edge 1 = [1, 1] \<and> sum_sp two_nodes_one_edge 0 = [2]
   \<and> from_coo [0, 1] [1, 0] (Some (2, 2)) = Some two_way_edge
   \<and> to_dense two_way_edge 0 1 = 1 \<and> to_dense two_way_edge 1 0 = 1
   \<and> (\<exists>L. HGNN_init two_nodes_one_edge = Some L
          \<and> to_dense L 0 1 = Fin (1 / 2) \<and> to_dense L 1 0 = Fin (1 / 2))
   \<and> (\<exists>L. GCNLayer_forward two_way_edge = Some L
          \<and> to_dense L 0 1 = Fin (1 / 2) \<and> to_dense L 1 0 = Fin (1 / 2))"
proof -
  have sym: "\<forall>i j. to_dense two_way_edge i j = to_dense two_way_edge j i"
    by (auto simp: two_way_edge_dense)
  have "(\<exists>L. HGNN_init two_nodes_one_edge = Some L \<and> (\<forall>i j. to_dense L i j = to_dense L j i))
      \<and> (\<exists>L. GCNLayer_forward two_way_edge = Some L \<and> (\<forall>i j. to_dense L i j = to_dense L j i))"
    by (rule operator_symmetric [OF from_coo_two_nodes_one_edge _ _ from_coo_two_way_edge sym])
       (use two_nodes_one_edge_degrees in simp_all)
  then obtain L1 L2 where L1: "HGNN_init two_nodes_one_edge = Some L1"
      and s1: "to_dense L1 1 0 = to_dense L1 0 1"
      and L2: "GCNLayer_forward two_way_edge = Some L2"
      and s2: "to_dense L2 1 0 = to_dense L2 0 1"
    by metis
  have rel1: "is_relation two_nodes_one_edge"
    using from_coo_two_nodes_one_edge by (rule from_coo_relation)
  have "L1 = float_sp (HGNN_real two_nodes_one_edge)"
    using HGNN_init_real [OF rel1] L1 by simp
  then have v1: "to_dense L1 0 1 = Fin (1 / 2)"
    using two_nodes_one_edge_operator by (simp add: to_dense_float)
  have "L2 = float_sp (GCN_real two_way_edge)"
    using GCNLayer_forward_real [OF from_coo_square(1,2) [OF from_coo_two_way_edge]] L2 by simp
  then have v2: "to_dense L2 0 1 = Fin (1 / 2)"
    using two_way_edge_operator by (simp add: to_dense_float)
  have d: "to_dense two_way_edge 0 1 = 1" "to_dense two_way_edge 1 0 = 1"
    by (simp_all add: two_way_edge_dense)
  show ?thesis
    using from_coo_two_nodes_one_edge two_nodes_one_edge_degrees from_coo_two_way_edge d
      L1 L2 s1 s2 v1 v2
    by simp
qed

text \<open>
  The claim as first stated promises a symmetric plain-graph operator for any relation
  without a zero-degree row or column. The directed cycle on three nodes has every row
  degree and every column degree equal to 1, and its operator holds one half at
  \<open>(0, 1)\<close> and zero at \<open>(1, 0)\<close>.
\<close>

theorem gcn_symmetry_counterexample:
  "from_coo [0, 1, 2] [1, 2, 0] (Some (3, 3)) = Some directed_cycle
   \<and> sum_sp directed_cycle 1 = [1, 1, 1] \<and> sum_sp directed_cycle 0 = [1, 1, 1]
   \<and> (\<exists>L. GCNLayer_forward directed_cycle = Some L
          \<and> to_dense L 0 1 = Fin (1 / 2) \<and> to_dense L 1 0 = Fin 0
          \<and> to_dense L 0 1 \<noteq> to_dense L 1 0)"
proof -
  have rel: "is_relation directed_cycle" and sq: "nrows directed_cycle = ncols directed_cycle"
    using from_coo_square [OF from_coo_directed_cycle] by simp_all
  have three: "{..<3::nat} = {0, 1, 2}" by auto
  have n: "nrows directed_cycle = 3" by (simp add: directed_cycle_def)
  have "column_graph_operator 3 (to_dense directed_cycle) 0 1 = 1 / 2"
    unfolding column_graph_operator_def Let_def graph_operator_closed
    using powr_half_square [of 2] by (simp add: three directed_cycle_dense)
  then have a: "to_dense (float_sp (GCN_real directed_cycle)) 0 1 = Fin (1 / 2)"
    using GCN_real_is_column_operator [OF rel sq, of 0 1] by (simp add: to_dense_float n)
  have "column_graph_operator 3 (to_dense directed_cycle) 1 0 = 0"
    unfolding column_graph_operator_def Let_def graph_operator_closed
    by (simp add: three directed_cycle_dense)
  then have b: "to_dense (float_sp (GCN_real directed_cycle)) 1 0 = Fin 0"
    using GCN_real_is_column_operator [OF rel sq, of 1 0] by (simp add: to_dense_float n)
  have "sum_sp directed_cycle 1 = [1, 1, 1]" "sum_sp directed_cycle 0 = [1, 1, 1]"
    by (simp_all add: sum_sp_def directed_cycle_def upt_rec)
  then show ?thesis
    using GCNLayer_forward_real [OF rel sq] from_coo_directed_cycle a b by simp
qed

section \<open>Sparsity pattern of the plain-graph operator\<close>

lemma pattern_mm_diag_left:
  "set (pattern (mm (diag v) X)) = {p \<in> set (pattern X). fst p < length v}"
  unfolding pattern_mm pattern_diag by auto

lemma pattern_mm_diag_right:
  "set (pattern (mm X (diag v))) = {p \<in> set (pattern X). snd p < length v}"
  unfolding pattern_mm pattern_diag by auto

lemma pattern_GCN_real:
  assumes wf: "wf_sp A" and sq: "nrows A = ncols A"
  shows "set (pattern (GCN_real A)) = set (pattern A) \<union> {(i, i) | i. i < nrows A}"
proof -
  define A_hat where "A_hat = plus_sp A (identity (shape A))"
  define s where "s = map (\<lambda>x. x powr (- (1 / 2))) (sum_sp A_hat 0)"
  have len: "length s = nrows A"
    by (simp add: s_def A_hat_def length_sum_sp sq)
  have wfh: "wf_sp A_hat"
    unfolding A_hat_def using wf by (intro wf_plus) (simp_all add: shape_def)
  then have inside: "\<forall>p\<in>set (pattern A_hat). fst p < nrows A \<and> snd p < nrows A"
    by (auto simp: wf_sp_def list_all_iff A_hat_def sq)
  have real: "GCN_real A = mm (mm (diag s) A_hat) (diag s)"
    unfolding GCN_real_def Let_def s_def A_hat_def by (rule refl)
  have "set (pattern (GCN_real A)) = set (pattern A_hat)"
    unfolding real pattern_mm_diag_right pattern_mm_diag_left len using inside by auto
  also have "\<dots> = set (pattern A) \<union> {(i, i) | i. i < nrows A}"
    by (simp add: A_hat_def pattern_plus pattern_identity shape_def sq)
  finally show ?thesis .
qed

lemma GCN_real_nonzero:
  assumes rel: "is_relation A" and sq: "nrows A = ncols A"
  shows "(to_dense (GCN_real A) i k \<noteq> 0) = ((i, k) \<in> set (pattern A) \<union> {(i, i) | i. i < nrows A})"
proof (cases "i < nrows A \<and> k < nrows A")
  case False
  have "to_dense (GCN_real A) i k = 0"
    by (simp only: to_dense_GCN_real [OF wf_relation [OF rel] sq] if_not_P [OF False])
  moreover have "(i, k) \<notin> set (pattern A)"
    using False wf_relation [OF rel] sq by (auto simp: wf_sp_def list_all_iff)
  moreover have "(i, k) \<notin> {(i, i) | i. i < nrows A}"
    using False by auto
  ultimately show ?thesis by simp
next
  case True
  define d where "d = sum_sp (plus_sp A (identity (shape A))) 0"
  have "list_all (\<lambda>x. 1 \<le> x) d"
    using augmented_degree_ge1 [OF rel sq] by (simp add: d_def list_all_iff)
  moreover have "i < length d" "k < length d"
    using True by (simp_all add: d_def length_sum_sp sq)
  ultimately have pos: "0 < d ! i" "0 < d ! k"
    by (fastforce simp: list_all_length)+
  have val: "to_dense (GCN_real A) i k
      = (d ! i) powr (- (1 / 2)) * (to_dense A i k + (if i = k then 1 else 0)) * (d ! k) powr (- (1 / 2))"
    by (simp only: to_dense_GCN_real [OF wf_relation [OF rel] sq] if_P [OF True] d_def)
  have "(to_dense (GCN_real A) i k \<noteq> 0) = (to_dense A i k + (if i = k then 1 else 0) \<noteq> 0)"
    unfolding val using pos by simp
  also have "\<dots> = (0 < to_dense A i k \<or> i = k)"
    using relation_nonneg [OF rel, of i k] by auto
  also have "\<dots> = ((i, k) \<in> set (pattern A) \<union> {(i, i) | i. i < nrows A})"
    using True by (auto simp: relation_pos_iff [OF rel])
  finally show ?thesis .
qed

text \<open>
  C4. For a square adjacency relation, the index pairs stored in the operator of
  \<open>GCNLayer.forward\<close> are those of \<open>A\<close> together with the diagonal, and a dense entry
  of the operator is nonzero exactly at these index pairs: every entry outside them is
  zero.
\<close>

theorem gcn_sparsity_pattern:
  assumes "from_coo row col (Some (N, N)) = Some A"
  shows "\<exists>L. GCNLayer_forward A = Some L
           \<and> set (pattern L) = set (pattern A) \<union> {(i, i) | i. i < N}
           \<and> (\<forall>i j. (to_dense L i j \<noteq> Fin 0) = ((i, j) \<in> set (pattern A) \<union> {(i, i) | i. i < N}))"
proof -
  note sq = from_coo_square [OF assms]
  have "set (pattern (float_sp (GCN_real A))) = set (pattern A) \<union> {(i, i) | i. i < N}"
    using pattern_GCN_real [OF wf_relation [OF sq(1)] sq(2)] by (simp add: sq)
  moreover have "(to_dense (float_sp (GCN_real A)) i j \<noteq> Fin 0)
      = ((i, j) \<in> set (pattern A) \<union> {(i, i) | i. i < N})" for i j
    using GCN_real_nonzero [OF sq(1,2), of i j] by (simp add: to_dense_float sq)
  ultimately show ?thesis
    using GCNLayer_forward_real [OF sq(1,2)] by simp
qed

theorem gcn_sparsity_pattern_witness:
  "from_coo [0] [1] (Some (2, 2)) = Some one_edge
   \<and> (\<exists>L. GCNLayer_forward one_edge = Some L
          \<and> set (pattern L) = {(0, 1), (0, 0), (1, 1)}
          \<and> to_dense L 0 1 \<noteq> Fin 0 \<and> to_dense L 1 0 = Fin 0)"
proof -
  have diagonal: "{(i, i) | i. i < (2::nat)} = {(0, 0), (1, 1)}"
    by (auto simp: less_2_cases_iff)
  have pat: "set (pattern one_edge) = {(0, 1)}"
    by (simp add: pattern_def one_edge_def)
  obtain L where L: "GCNLayer_forward one_edge = Some L"
    "set (pattern L) = set (pattern one_edge) \<union> {(i, i) | i. i < 2}"
    "\<forall>i j. (to_dense L i j \<noteq> Fin 0) = ((i, j) \<in> set (pattern one_edge) \<union> {(i, i) | i. i < 2})"
    using gcn_sparsity_pattern [OF from_coo_one_edge] by blast
  have "set (pattern L) = {(0, 1), (0, 0), (1, 1)}"
    using L(2) by (auto simp: pat diagonal)
  moreover have "to_dense L 0 1 \<noteq> Fin 0"
    using L(3) by (simp add: pat)
  moreover have "to_dense L 1 0 = Fin 0"
    using L(3) [rule_format, of 1 0] by (simp add: pat diagonal)
  ultimately show ?thesis
    using L(1) from_coo_one_edge by simp
qed

section \<open>Finiteness\<close>

lemma float_stored_finite: "list_all (\<lambda>e. is_finite (snd e)) (ents (float_sp X))"
  by (simp add: float_sp_def list_all_iff)

lemma float_dense_finite: "is_finite (to_dense (float_sp X) i k)"
  by (simp add: to_dense_float)

lemma degree_nonneg:
  assumes "is_relation H" "d \<in> set (sum_sp H k)"
  shows "0 \<le> d"
proof -
  have "sum_list (map snd (filter P (ents H))) = real (length (filter P (ents H)))" for P
    using assms(1) by (intro sum_list_ones) (auto simp: is_relation_def list_all_iff)
  then show ?thesis
    using assms(2) by (auto simp: sum_sp_def split: if_splits)
qed

lemma pow_finite_iff: "0 \<le> d \<Longrightarrow> p < 0 \<Longrightarrow> is_finite (pow d p) = (d \<noteq> 0)"
  by (auto simp: pow_def)

lemma pow_t_finite_iff:
  assumes "is_relation H" "p < 0"
  shows "map is_finite (pow_t (sum_sp H k) p) = map (\<lambda>d. d \<noteq> 0) (sum_sp H k)"
  using degree_nonneg [OF assms(1)] assms(2)
  by (simp add: pow_t_def pow_finite_iff)

lemma pow_t_finite_ge1: "list_all (\<lambda>d. 1 \<le> d) ds \<Longrightarrow> list_all is_finite (pow_t ds p)"
  by (auto simp: pow_t_def list_all_iff pow_def)

lemma from_coo_isolated_node: "from_coo [0, 2] [0, 0] (Some (3, 1)) = Some isolated_node"
  by (simp add: from_coo_def isolated_node_def)

lemma from_coo_edge_and_isolated: "from_coo [0] [1] (Some (3, 3)) = Some edge_and_isolated"
  by (simp add: from_coo_def edge_and_isolated_def)

lemma two_loops_degrees: "sum_sp two_loops 1 = [1, 1]" "sum_sp two_loops 0 = [1, 1]"
  by (simp_all add: sum_sp_def two_loops_def upt_rec)

text \<open>
  C8. For an incidence relation in which every row and every column has degree at least
  1, no element of the degree-inverse scaling vectors is a division by zero, and every
  stored value and every dense entry of the operator of \<open>HGNN.__init__\<close> is finite; so
  is every stored value and dense entry of the operator of \<open>GCNLayer.forward\<close> on the
  relation, when it is square.
\<close>

theorem operators_finite:
  assumes "from_coo row col (Some (N, M)) = Some H"
    and "list_all (\<lambda>d. 1 \<le> d) (sum_sp H 1)"
    and "list_all (\<lambda>d. 1 \<le> d) (sum_sp H 0)"
  shows "list_all is_finite (pow_t (sum_sp H 1) (- (1 / 2)))
       \<and> list_all is_finite (pow_t (sum_sp H 0) (- 1))
       \<and> (\<exists>L. HGNN_init H = Some L \<and> list_all (\<lambda>e. is_finite (snd e)) (ents L)
              \<and> (\<forall>i k. is_finite (to_dense L i k)))
       \<and> (N = M \<longrightarrow>
            (\<exists>L. GCNLayer_forward H = Some L \<and> list_all (\<lambda>e. is_finite (snd e)) (ents L)
              \<and> (\<forall>i k. is_finite (to_dense L i k))))"
proof -
  have rel: "is_relation H" using assms(1) by (rule from_coo_relation)
  have hyper: "\<exists>L. HGNN_init H = Some L \<and> list_all (\<lambda>e. is_finite (snd e)) (ents L)
              \<and> (\<forall>i k. is_finite (to_dense L i k))"
    using HGNN_init_real [OF rel] float_stored_finite float_dense_finite by simp
  have plain: "\<exists>L. GCNLayer_forward H = Some L \<and> list_all (\<lambda>e. is_finite (snd e)) (ents L)
              \<and> (\<forall>i k. is_finite (to_dense L i k))" if "N = M"
  proof -
    have "nrows H = ncols H" using from_coo_shape [OF assms(1)] that by simp
    from GCNLayer_forward_real [OF rel this] show ?thesis
      using float_stored_finite float_dense_finite by simp
  qed
  show ?thesis
    using pow_t_finite_ge1 [OF assms(2)] pow_t_finite_ge1 [OF assms(3)] hyper plain by blast
qed

theorem operators_finite_witness:
  "from_coo [0, 1] [0, 1] (Some (2, 2)) = Some two_loops
   \<and> sum_sp two_loops 1 = [1, 1] \<and> sum_sp two_loops 0 = [1, 1]
   \<and> pow_t (sum_sp two_loops 1) (- (1 / 2)) = [Fin 1, Fin 1]
   \<and> pow_t (sum_sp two_loops 0) (- 1) = [Fin 1, Fin 1]
   \<and> (\<exists>L. HGNN_init two_loops = Some L \<and> is_finite (to_dense L 0 0))
   \<and> (\<exists>L. GCNLayer_forward two_loops = Some L \<and> is_finite (to_dense L 0 0))"
proof -
  have h2: "list_all (\<lambda>d. 1 \<le> d) (sum_sp two_loops 1)"
    and h3: "list_all (\<lambda>d. 1 \<le> d) (sum_sp two_loops 0)"
    by (simp_all only: two_loops_degrees) simp_all
  have "pow_t (sum_sp two_loops 1) (- (1 / 2)) = [Fin 1, Fin 1]"
    "pow_t (sum_sp two_loops 0) (- 1) = [Fin 1, Fin 1]"
    by (simp_all only: two_loops_degrees) (simp_all add: pow_t_def pow_def)
  then show ?thesis
    using operators_finite [OF from_coo_two_loops h2 h3] from_coo_two_loops two_loops_degrees
    by blast
qed

text \<open>
  C10. For every square adjacency relation, with no condition on its degrees, every
  degree of the augmented matrix \<open>A + I\<close> taken in \<open>GCNLayer.forward\<close> is at least 1,
  so no stored value of \<open>D_hat ** -0.5\<close> is a division by zero, and every stored value
  and dense entry of the operator is finite.
\<close>

theorem gcn_degrees_positive:
  assumes "from_coo row col (Some (N, N)) = Some A"
  shows "\<exists>A_hat. add_sp A (identity (shape A)) = Some A_hat
           \<and> list_all (\<lambda>d. 1 \<le> d) (sum_sp A_hat 0)
           \<and> list_all (\<lambda>e. is_finite (snd e)) (ents (pow_sp (diag (sum_sp A_hat 0)) (- (1 / 2))))
           \<and> (\<exists>L. GCNLayer_forward A = Some L \<and> list_all (\<lambda>e. is_finite (snd e)) (ents L)
                  \<and> (\<forall>i k. is_finite (to_dense L i k)))"
proof -
  note sq = from_coo_square [OF assms]
  define A_hat where "A_hat = plus_sp A (identity (shape A))"
  have add: "add_sp A (identity (shape A)) = Some A_hat"
    by (simp add: add_sp_def shape_def A_hat_def)
  have deg: "list_all (\<lambda>d. 1 \<le> d) (sum_sp A_hat 0)"
    using augmented_degree_ge1 [OF sq(1,2)] by (simp add: A_hat_def list_all_iff)
  have "list_all is_finite (pow_t (sum_sp A_hat 0) (- (1 / 2)))"
    using deg by (rule pow_t_finite_ge1)
  then have scal: "list_all (\<lambda>e. is_finite (snd e)) (ents (pow_sp (diag (sum_sp A_hat 0)) (- (1 / 2))))"
    unfolding pow_sp_diag by (auto simp: diag_def list_all_iff)
  show ?thesis
    using add deg scal GCNLayer_forward_real [OF sq(1,2)] float_stored_finite float_dense_finite
    by simp
qed

theorem gcn_degrees_positive_witness:
  "from_coo [0] [1] (Some (3, 3)) = Some edge_and_isolated
   \<and> sum_sp edge_and_isolated 1 = [1, 0, 0] \<and> sum_sp edge_and_isolated 0 = [0, 1, 0]
   \<and> (\<exists>A_hat. add_sp edge_and_isolated (identity (shape edge_and_isolated)) = Some A_hat
          \<and> list_all (\<lambda>d. 1 \<le> d) (sum_sp A_hat 0))
   \<and> (\<exists>L. GCNLayer_forward edge_and_isolated = Some L \<and> is_finite (to_dense L 2 2))"
proof -
  have "sum_sp edge_and_isolated 1 = [1, 0, 0]" "sum_sp edge_and_isolated 0 = [0, 1, 0]"
    by (simp_all add: sum_sp_def edge_and_isolated_def upt_rec)
  then show ?thesis
    using gcn_degrees_positive [OF from_coo_edge_and_isolated] from_coo_edge_and_isolated
    by blast
qed

text \<open>
  C9 (as amended). For every incidence relation, also one with an isolated node or an
  isolated hyperedge, the degree-inverse scaling vectors of \<open>HGNN.__init__\<close> hold a
  non-finite factor exactly at the indices of degree zero; such a factor meets no stored
  entry in the sparse products, and every stored value and every dense entry of the
  operator is finite.
\<close>

theorem hgnn_entries_finite:
  assumes "from_coo row col shp = Some H"
  shows "map is_finite (pow_t (sum_sp H 1) (- (1 / 2))) = map (\<lambda>d. d \<noteq> 0) (sum_sp H 1)
       \<and> map is_finite (pow_t (sum_sp H 0) (- 1)) = map (\<lambda>d. d \<noteq> 0) (sum_sp H 0)
       \<and> (\<exists>L. HGNN_init H = Some L \<and> list_all (\<lambda>e. is_finite (snd e)) (ents L)
              \<and> (\<forall>i k. is_finite (to_dense L i k)))"
proof -
  have rel: "is_relation H" using assms by (rule from_coo_relation)
  show ?thesis
    using pow_t_finite_iff [OF rel, of "- (1 / 2)" 1] pow_t_finite_iff [OF rel, of "- 1" 0]
      HGNN_init_real [OF rel] float_stored_finite float_dense_finite
    by simp
qed

theorem hgnn_entries_finite_witness:
  "from_coo [0, 2] [0, 0] (Some (3, 1)) = Some isolated_node
   \<and> sum_sp isolated_node 1 = [1, 0, 1]
   \<and> pow_t (sum_sp isolated_node 1) (- (1 / 2)) = [Fin 1, NonFin, Fin 1]
   \<and> (\<exists>L. HGNN_init isolated_node = Some L \<and> list_all (\<lambda>e. is_finite (snd e)) (ents L)
          \<and> is_finite (to_dense L 1 1) \<and> is_finite (to_dense L 1 0))"
proof -
  have deg: "sum_sp isolated_node 1 = [1, 0, 1]"
    by (simp add: sum_sp_def isolated_node_def upt_rec)
  have "pow_t (sum_sp isolated_node 1) (- (1 / 2)) = [Fin 1, NonFin, Fin 1]"
    by (simp only: deg) (simp add: pow_t_def pow_def)
  then show ?thesis
    using hgnn_entries_finite [OF from_coo_isolated_node] from_coo_isolated_node deg
    by blast
qed

text \<open>
  The claim as first stated: some incidence relation with a row or a column of degree
  zero makes \<open>HGNN.__init__\<close> return an operator that holds a non-finite value. No
  relation does.
\<close>

theorem hgnn_nonfinite_counterexample:
  "\<not> (\<exists>row col shp H L. from_coo row col shp = Some H
         \<and> (0 \<in> set (sum_sp H 1) \<or> 0 \<in> set (sum_sp H 0))
         \<and> HGNN_init H = Some L
         \<and> ((\<exists>e\<in>set (ents L). \<not> is_finite (snd e)) \<or> (\<exists>i k. \<not> is_finite (to_dense L i k))))"
proof
  assume "\<exists>row col shp H L. from_coo row col shp = Some H
         \<and> (0 \<in> set (sum_sp H 1) \<or> 0 \<in> set (sum_sp H 0))
         \<and> HGNN_init H = Some L
         \<and> ((\<exists>e\<in>set (ents L). \<not> is_finite (snd e)) \<or> (\<exists>i k. \<not> is_finite (to_dense L i k)))"
  then obtain row col shp H L where coo: "from_coo row col shp = Some H"
    and L: "HGNN_init H = Some L"
    and bad: "(\<exists>e\<in>set (ents L). \<not> is_finite (snd e)) \<or> (\<exists>i k. \<not> is_finite (to_dense L i k))"
    by blast
  have "L = float_sp (HGNN_real H)"
    using HGNN_init_real [OF from_coo_relation [OF coo]] L by simp
  then show False
    using bad float_stored_finite [of "HGNN_real H"] float_dense_finite [of "HGNN_real H"]
    by (auto simp: list_all_iff)
qed

section \<open>Sparse attention\<close>

lemma sum_list_pos:
  fixes f :: "'a \<Rightarrow> real"
  shows "xs \<noteq> [] \<Longrightarrow> \<forall>x\<in>set xs. 0 < f x \<Longrightarrow> 0 < sum_list (map f xs)"
proof (induction xs)
  case Nil
  then show ?case by simp
next
  case (Cons a xs)
  show ?case
  proof (cases "xs = []")
    case True
    then show ?thesis using Cons.prems by simp
  next
    case False
    then have "0 < sum_list (map f xs)" using Cons by simp
    moreover have "0 < f a" using Cons.prems by simp
    ultimately show ?thesis by simp
  qed
qed

lemma keys_softmax: "fst ` set (ents (softmax S)) = set (pattern S)"
  by (force simp: softmax_def pattern_def)

lemma pattern_softmax: "pattern (softmax S) = pattern S"
  by (simp add: pattern_def softmax_def comp_def)

lemma pattern_bsddmm: "pattern (bsddmm A dh X1 X2) = pattern A"
  by (simp add: pattern_def bsddmm_def comp_def)

lemma pattern_attn: "pattern (SparseMHA_attn dh scaling A q0 k0) = pattern A"
  by (simp add: SparseMHA_attn_def Let_def pattern_softmax pattern_bsddmm)

lemma softmax_value_pos:
  assumes "e \<in> set (ents (softmax S))"
  shows "0 < snd e b"
proof -
  from assms obtain e0 where e0: "e0 \<in> set (ents S)"
    and e: "e = (fst e0, \<lambda>b. exp (snd e0 b) /
                 (\<Sum>f\<leftarrow>filter (\<lambda>f. fst (fst f) = fst (fst e0)) (ents S). exp (snd f b)))"
    by (auto simp: softmax_def)
  let ?row = "filter (\<lambda>f. fst (fst f) = fst (fst e0)) (ents S)"
  have "e0 \<in> set ?row" using e0 by simp
  then have "?row \<noteq> []" by (auto simp: filter_empty_conv)
  then have "0 < (\<Sum>f\<leftarrow>?row. exp (snd f b))"
    by (rule sum_list_pos) simp
  then show ?thesis by (simp add: e)
qed

lemma to_dense_head_nonzero:
  "(to_dense_head (softmax S) i j b \<noteq> 0) = ((i, j) \<in> set (pattern S))"
proof (cases "(i, j) \<in> set (pattern S)")
  case True
  let ?at = "filter (\<lambda>e. fst e = (i, j)) (ents (softmax S))"
  from True have "(i, j) \<in> fst ` set (ents (softmax S))"
    by (simp add: keys_softmax)
  then have "?at \<noteq> []"
    by (force simp: filter_empty_conv)
  moreover have "\<forall>e\<in>set ?at. 0 < snd e b"
    using softmax_value_pos by auto
  ultimately have "0 < (\<Sum>e\<leftarrow>?at. snd e b)"
    by (rule sum_list_pos)
  then show ?thesis using True by (simp add: to_dense_head_def)
next
  case False
  then have "(i, j) \<notin> fst ` set (ents (softmax S))"
    by (simp add: keys_softmax)
  then have "filter (\<lambda>e. fst e = (i, j)) (ents (softmax S)) = []"
    by (force simp: filter_empty_conv)
  then show ?thesis using False by (simp add: to_dense_head_def)
qed

text \<open>
  C7. For every adjacency matrix and every query and key tensor, the attention matrix
  of \<open>SparseMHA.forward\<close> stores exactly the index pairs of \<open>A\<close>, and its dense entry
  for a head is nonzero only at an index pair of \<open>A\<close> (and, the exponential being
  positive, at every one of them).
\<close>

theorem attention_pattern:
  "pattern (SparseMHA_attn dh scaling A q0 k0) = pattern A
   \<and> (\<forall>i j b. (to_dense_head (SparseMHA_attn dh scaling A q0 k0) i j b \<noteq> 0)
                = ((i, j) \<in> set (pattern A)))"
proof -
  have "(to_dense_head (SparseMHA_attn dh scaling A q0 k0) i j b \<noteq> 0) = ((i, j) \<in> set (pattern A))"
    for i j b
    using to_dense_head_nonzero [of "bsddmm A dh (\<lambda>n m b. q0 n m b * scaling) (transpose10 k0)" i j b]
    by (simp add: SparseMHA_attn_def Let_def pattern_bsddmm)
  then show ?thesis by (simp add: pattern_attn)
qed

lemma single_entry_row:
  assumes "distinct (map (\<lambda>e. fst (fst e)) es)" "e \<in> set es"
  shows "filter (\<lambda>f. fst (fst f) = fst (fst e)) es = [e]"
  using assms
proof (induction es)
  case Nil
  then show ?case by simp
next
  case (Cons x es)
  show ?case
  proof (cases "e = x")
    case True
    have "filter (\<lambda>f. fst (fst f) = fst (fst x)) es = []"
      using Cons.prems(1) by (auto simp: filter_empty_conv image_iff)
    then show ?thesis using True by simp
  next
    case False
    then have "e \<in> set es" using Cons.prems(2) by simp
    moreover from this have "fst (fst x) \<noteq> fst (fst e)"
      using Cons.prems(1) by (auto simp: image_iff)
    ultimately show ?thesis using Cons by simp
  qed
qed

lemma from_coo_three_loops: "from_coo [2, 0, 1] [2, 0, 1] (Some (3, 3)) = Some three_loops"
  by (simp add: from_coo_def three_loops_def)

text \<open>\<open>SparseMHA.forward\<close> in float32: finite scores are the exact ones.\<close>

lemma fl_Fin: "fl x = Fin y \<Longrightarrow> y = x"
  by (simp add: fl_def split: if_splits)

lemma mul32_Fin: "mul32 a b = Fin p \<Longrightarrow> \<exists>x y. a = Fin x \<and> b = Fin y \<and> p = x * y"
  by (cases a; cases b) (auto dest: fl_Fin)

lemma add32_Fin: "add32 a b = Fin p \<Longrightarrow> \<exists>x y. a = Fin x \<and> b = Fin y \<and> p = x + y"
  by (cases a; cases b) (auto dest: fl_Fin)

text \<open>A finite accumulated dot product is the exact one.\<close>

lemma foldl_dot_Fin:
  "foldl (\<lambda>acc m. add32 acc (mul32 (x m) (y m))) a ms = Fin s \<Longrightarrow>
     s = fin_val a + (\<Sum>m\<leftarrow>ms. fin_val (x m) * fin_val (y m))"
proof (induction ms arbitrary: a)
  case Nil
  then show ?case by simp
next
  case (Cons m ms)
  from Cons.prems have "foldl (\<lambda>acc m. add32 acc (mul32 (x m) (y m))) (add32 a (mul32 (x m) (y m))) ms = Fin s"
    by simp
  from Cons.IH [OF this]
  have s: "s = fin_val (add32 a (mul32 (x m) (y m))) + (\<Sum>m\<leftarrow>ms. fin_val (x m) * fin_val (y m))" .
  show ?case
  proof (cases "add32 a (mul32 (x m) (y m))")
    case (Fin v)
    from add32_Fin [OF this] obtain a0 p where a0: "a = Fin a0" "mul32 (x m) (y m) = Fin p" "v = a0 + p"
      by blast
    from mul32_Fin [OF a0(2)] obtain xv yv where "x m = Fin xv" "y m = Fin yv" "p = xv * yv"
      by blast
    then show ?thesis using s Fin a0 by simp
  next
    case NonFin
    have "foldl (\<lambda>acc m. add32 acc (mul32 (x m) (y m))) NonFin ms = NonFin" for ms
      by (induction ms) simp_all
    then show ?thesis using Cons.prems NonFin by simp
  qed
qed

lemma dot32_Fin:
  "dot32 dh x y = Fin s \<Longrightarrow> s = (\<Sum>m\<leftarrow>[0..<dh]. fin_val (x m) * fin_val (y m))"
  unfolding dot32_def by (drule foldl_dot_Fin) simp

lemma pattern_scores_f32: "pattern (SparseMHA_scores_f32 dh scaling A q0 k0) = pattern A"
  by (simp add: SparseMHA_scores_f32_def Let_def bsddmm_f32_def pattern_def comp_def)

lemma softmax_f32_single:
  assumes "distinct (map fst (pattern S))"
  shows "ents (softmax_f32 S)
       = map (\<lambda>e. (fst e, \<lambda>b. if is_finite (snd e b) then Fin 1 else NonFin)) (ents S)"
proof -
  have d: "distinct (map (\<lambda>e. fst (fst e)) (ents S))"
    using assms by (simp add: pattern_def comp_def)
  have "(\<lambda>b. (let row = filter (\<lambda>f. fst (fst f) = fst (fst e)) (ents S)
                    in if list_all (\<lambda>f. is_finite (snd f b)) row
                       then Fin (exp (fin_val (snd e b)) / (\<Sum>f\<leftarrow>row. exp (fin_val (snd f b))))
                       else NonFin))
      = (\<lambda>b. if is_finite (snd e b) then Fin 1 else NonFin)" if "e \<in> set (ents S)" for e
    unfolding Let_def single_entry_row [OF d that] by (rule ext) simp
  then show ?thesis by (simp add: softmax_f32_def)
qed

lemma foldl_dot_finite:
  "foldl (\<lambda>acc m. add32 acc (mul32 (x m) (y m))) a ms = Fin s \<Longrightarrow>
     \<forall>m\<in>set ms. is_finite (x m) \<and> is_finite (y m)"
proof (induction ms arbitrary: a)
  case Nil
  then show ?case by simp
next
  case (Cons m ms)
  have stuck: "foldl (\<lambda>acc m. add32 acc (mul32 (x m) (y m))) NonFin ms = NonFin" for ms
    by (induction ms) simp_all
  from Cons.prems have run: "foldl (\<lambda>acc m. add32 acc (mul32 (x m) (y m))) (add32 a (mul32 (x m) (y m))) ms = Fin s"
    by simp
  then obtain v where v: "add32 a (mul32 (x m) (y m)) = Fin v"
    using stuck by (cases "add32 a (mul32 (x m) (y m))") auto
  from add32_Fin [OF v] obtain p where "mul32 (x m) (y m) = Fin p" by blast
  from mul32_Fin [OF this] have "is_finite (x m) \<and> is_finite (y m)" by auto
  then show ?case using Cons.IH [OF run] by simp
qed

lemma fin_val_fl: "is_finite (fl x) \<Longrightarrow> fin_val (fl x) = x"
  by (simp add: fl_def split: if_splits)

text \<open>
  A finite score of the float model is the score over the reals: the two agree as long
  as nothing overflows.
\<close>

lemma score_f32_exact:
  assumes "mul32 (dot32 dh (\<lambda>m. fl (q m * scaling)) (\<lambda>m. Fin (k m))) (Fin a) = Fin s"
  shows "s = (\<Sum>m\<leftarrow>[0..<dh]. q m * scaling * k m) * a"
proof -
  from mul32_Fin [OF assms] obtain d where d: "dot32 dh (\<lambda>m. fl (q m * scaling)) (\<lambda>m. Fin (k m)) = Fin d"
    and s: "s = d * a" by auto
  have fin: "\<forall>m\<in>set [0..<dh]. is_finite (fl (q m * scaling))"
    using foldl_dot_finite [OF d [unfolded dot32_def]] by simp
  have "d = (\<Sum>m\<leftarrow>[0..<dh]. fin_val (fl (q m * scaling)) * fin_val (Fin (k m)))"
    using d by (rule dot32_Fin)
  also have "\<dots> = (\<Sum>m\<leftarrow>[0..<dh]. q m * scaling * k m)"
    using fin by (intro arg_cong [where f = sum_list] map_cong refl) (simp add: fin_val_fl)
  finally show ?thesis using s by simp
qed

lemma scores_f32_exact:
  assumes "\<forall>e\<in>set (ents (SparseMHA_scores_f32 dh scaling A q0 k0)). \<forall>b. is_finite (snd e b)"
  shows "ents (SparseMHA_scores_f32 dh scaling A q0 k0)
       = map (\<lambda>e. (fst e, \<lambda>b. Fin (snd e b)))
             (ents (bsddmm A dh (\<lambda>n m b. q0 n m b * scaling) (transpose10 k0)))"
proof -
  have "mul32 (dot32 dh (\<lambda>m. fl (q0 (fst (fst e)) m b * scaling)) (\<lambda>m. Fin (k0 (snd (fst e)) m b))) (Fin (snd e))
      = Fin ((\<Sum>m\<leftarrow>[0..<dh]. q0 (fst (fst e)) m b * scaling * k0 (snd (fst e)) m b) * snd e)"
    if "e \<in> set (ents A)" for e b
  proof -
    have "is_finite (mul32 (dot32 dh (\<lambda>m. fl (q0 (fst (fst e)) m b * scaling)) (\<lambda>m. Fin (k0 (snd (fst e)) m b))) (Fin (snd e)))"
      using assms that
      by (force simp: SparseMHA_scores_f32_def Let_def bsddmm_f32_def transpose10_f32_def)
    then obtain s where s: "mul32 (dot32 dh (\<lambda>m. fl (q0 (fst (fst e)) m b * scaling)) (\<lambda>m. Fin (k0 (snd (fst e)) m b))) (Fin (snd e)) = Fin s"
      by (cases "mul32 (dot32 dh (\<lambda>m. fl (q0 (fst (fst e)) m b * scaling)) (\<lambda>m. Fin (k0 (snd (fst e)) m b))) (Fin (snd e))") auto
    from score_f32_exact [OF this] show ?thesis using s by simp
  qed
  then show ?thesis
    by (simp add: SparseMHA_scores_f32_def Let_def bsddmm_f32_def bsddmm_def transpose10_f32_def
        transpose10_def)
qed

lemma softmax_f32_exact:
  "softmax_f32 \<lparr>nrows = n, ncols = m, ents = map (\<lambda>e. (fst e, \<lambda>b. Fin (snd e b))) es\<rparr>
     = \<lparr>nrows = n, ncols = m,
        ents = map (\<lambda>e. (fst e, \<lambda>b. Fin (snd e b))) (ents (softmax \<lparr>nrows = n, ncols = m, ents = es\<rparr>))\<rparr>"
proof -
  have "list_all (\<lambda>f. is_finite (snd f b)) (filter P (map (\<lambda>e. (fst e, \<lambda>b. Fin (snd e b))) es))" for b P
    by (auto simp: list_all_iff)
  moreover have "(\<Sum>f\<leftarrow>filter (\<lambda>f. fst (fst f) = r) (map (\<lambda>e. (fst e, \<lambda>b. Fin (snd e b))) es). exp (fin_val (snd f b)))
      = (\<Sum>f\<leftarrow>filter (\<lambda>f. fst (fst f) = r) es. exp (snd f b))" for r b
    by (induction es) simp_all
  ultimately show ?thesis
    by (simp add: softmax_f32_def softmax_def Let_def comp_def)
qed

lemma attn_f32_exact:
  assumes "\<forall>e\<in>set (ents (SparseMHA_scores_f32 dh scaling A q0 k0)). \<forall>b. is_finite (snd e b)"
  shows "ents (SparseMHA_attn_f32 dh scaling A q0 k0)
       = map (\<lambda>e. (fst e, \<lambda>b. Fin (snd e b))) (ents (SparseMHA_attn dh scaling A q0 k0))"
proof -
  let ?R = "bsddmm A dh (\<lambda>n m b. q0 n m b * scaling) (transpose10 k0)"
  have e1: "SparseMHA_scores_f32 dh scaling A q0 k0
      = \<lparr>nrows = nrows A, ncols = ncols A, ents = map (\<lambda>e. (fst e, \<lambda>b. Fin (snd e b))) (ents ?R)\<rparr>"
    using scores_f32_exact [OF assms]
    by (simp add: SparseMHA_scores_f32_def Let_def bsddmm_f32_def)
  have e3: "\<lparr>nrows = nrows A, ncols = ncols A, ents = ents ?R\<rparr> = ?R"
    by (simp add: bsddmm_def)
  have "ents (softmax_f32 (SparseMHA_scores_f32 dh scaling A q0 k0))
      = map (\<lambda>e. (fst e, \<lambda>b. Fin (snd e b))) (ents (softmax ?R))"
    unfolding e1 softmax_f32_exact e3 by simp
  then show ?thesis
    by (simp add: SparseMHA_attn_f32_def SparseMHA_attn_def Let_def)
qed

lemma dense_head_diagonal:
  assumes "ents T = map (\<lambda>i. ((i, i), h i)) ps" "distinct ps" "i \<in> set ps"
  shows "to_dense_head_f32 T i i b = h i b"
proof -
  have "filter (\<lambda>e. fst e = (i, i)) (map (\<lambda>i. ((i, i), h i)) ps)
      = map (\<lambda>i. ((i, i), h i)) (filter (\<lambda>l. l = i) ps)"
    by (simp add: filter_map comp_def)
  also have "\<dots> = [((i, i), h i)]"
    using assms(2,3) by (simp add: filter_eq_distinct)
  finally show ?thesis by (simp add: to_dense_head_f32_def assms(1))
qed

text \<open>
  C6 (as amended). On the graph of three nodes whose edges are the three self loops, in
  any order, the attention matrix of \<open>SparseMHA.forward\<close> stores the three diagonal
  index pairs, and the weight of a diagonal entry for a head is exactly 1 for every
  choice of queries, keys, head dimension and scaling for which the score of that entry
  is finite; where the score overflows, the weight is not finite.
\<close>

theorem self_loop_attention:
  assumes "from_coo ps ps (Some (3, 3)) = Some A" "distinct ps" "set ps = {0, 1, 2}"
  shows "pattern (SparseMHA_attn_f32 dh scaling A q0 k0) = map (\<lambda>i. (i, i)) ps
       \<and> (\<forall>b. to_dense_head_f32 (SparseMHA_attn_f32 dh scaling A q0 k0) 0 0 b
                = (if is_finite (to_dense_head_f32 (SparseMHA_scores_f32 dh scaling A q0 k0) 0 0 b)
                   then Fin 1 else NonFin)
             \<and> to_dense_head_f32 (SparseMHA_attn_f32 dh scaling A q0 k0) 1 1 b
                = (if is_finite (to_dense_head_f32 (SparseMHA_scores_f32 dh scaling A q0 k0) 1 1 b)
                   then Fin 1 else NonFin)
             \<and> to_dense_head_f32 (SparseMHA_attn_f32 dh scaling A q0 k0) 2 2 b
                = (if is_finite (to_dense_head_f32 (SparseMHA_scores_f32 dh scaling A q0 k0) 2 2 b)
                   then Fin 1 else NonFin))"
proof -
  have entsA: "ents A = map (\<lambda>p. (p, 1)) (zip ps ps)"
    using assms(1) by (auto simp: from_coo_def split: if_splits)
  have zip: "zip ps ps = map (\<lambda>i. (i, i)) ps"
    by (induction ps) auto
  let ?S = "SparseMHA_scores_f32 dh scaling A q0 k0"
  define g where "g = (\<lambda>i b. mul32 (dot32 dh (\<lambda>m. fl (q0 i m b * scaling)) (\<lambda>m. Fin (k0 i m b))) (Fin 1))"
  have S: "ents ?S = map (\<lambda>i. ((i, i), g i)) ps"
    by (simp add: SparseMHA_scores_f32_def Let_def bsddmm_f32_def transpose10_f32_def entsA zip
        comp_def g_def)
  have "distinct (map fst (pattern ?S))"
    using assms(2) by (simp add: pattern_def S comp_def)
  then have "ents (softmax_f32 ?S)
       = map (\<lambda>e. (fst e, \<lambda>b. if is_finite (snd e b) then Fin 1 else NonFin)) (ents ?S)"
    by (rule softmax_f32_single)
  then have T: "ents (SparseMHA_attn_f32 dh scaling A q0 k0)
       = map (\<lambda>i. ((i, i), \<lambda>b. if is_finite (g i b) then Fin 1 else NonFin)) ps"
    by (simp add: SparseMHA_attn_f32_def S comp_def)
  have one: "to_dense_head_f32 (SparseMHA_attn_f32 dh scaling A q0 k0) i i b
       = (if is_finite (to_dense_head_f32 ?S i i b) then Fin 1 else NonFin)" if "i \<in> set ps" for i b
    using dense_head_diagonal [OF T assms(2) that] dense_head_diagonal [OF S assms(2) that]
    by simp
  have "pattern (SparseMHA_attn_f32 dh scaling A q0 k0) = map (\<lambda>i. (i, i)) ps"
    by (simp add: pattern_def T comp_def)
  then show ?thesis using one assms(3) by simp
qed

theorem self_loop_attention_witness:
  "from_coo [2, 0, 1] [2, 0, 1] (Some (3, 3)) = Some three_loops
   \<and> distinct [2, 0, 1 :: nat] \<and> set [2, 0, 1 :: nat] = {0, 1, 2}
   \<and> to_dense_head_f32
        (SparseMHA_scores_f32 4 (1 / 2) three_loops (\<lambda>n m b. real (n + m + b)) (\<lambda>n m b. 2)) 1 1 7 = Fin 38
   \<and> to_dense_head_f32
        (SparseMHA_attn_f32 4 (1 / 2) three_loops (\<lambda>n m b. real (n + m + b)) (\<lambda>n m b. 2)) 1 1 7 = Fin 1"
proof -
  have d: "distinct [2, 0, 1 :: nat]" by simp
  have s: "set [2, 0, 1 :: nat] = {0, 1, 2}" by auto
  have score: "to_dense_head_f32
        (SparseMHA_scores_f32 4 (1 / 2) three_loops (\<lambda>n m b. real (n + m + b)) (\<lambda>n m b. 2)) 1 1 7 = Fin 38"
    by (simp add: to_dense_head_f32_def SparseMHA_scores_f32_def Let_def bsddmm_f32_def
        transpose10_f32_def three_loops_def dot32_def fl_def float32_overflow_def upt_rec zero_fval_def)
  show ?thesis
    using self_loop_attention [OF from_coo_three_loops d s, of 4 "1 / 2" "\<lambda>n m b. real (n + m + b)" "\<lambda>n m b. 2"]
      from_coo_three_loops d s score
    by simp
qed

text \<open>
  The claim as first stated promises the weight 1 for every choice of query and key
  vectors. With one feature, scaling 1 and every query and key component equal to
  \<open>10^30\<close>, the score \<open>10^60\<close> is beyond float32, and the weight is not finite.
\<close>

theorem self_loop_overflow_counterexample:
  "from_coo [2, 0, 1] [2, 0, 1] (Some (3, 3)) = Some three_loops
   \<and> to_dense_head_f32
        (SparseMHA_scores_f32 1 1 three_loops (\<lambda>n m b. 10 ^ 30) (\<lambda>n m b. 10 ^ 30)) 1 1 0 = NonFin
   \<and> to_dense_head_f32
        (SparseMHA_attn_f32 1 1 three_loops (\<lambda>n m b. 10 ^ 30) (\<lambda>n m b. 10 ^ 30)) 1 1 0 = NonFin
   \<and> to_dense_head_f32
        (SparseMHA_attn_f32 1 1 three_loops (\<lambda>n m b. 10 ^ 30) (\<lambda>n m b. 10 ^ 30)) 1 1 0 \<noteq> Fin 1"
proof -
  have score: "to_dense_head_f32
        (SparseMHA_scores_f32 1 1 three_loops (\<lambda>n m b. 10 ^ 30) (\<lambda>n m b. 10 ^ 30)) 1 1 0 = NonFin"
    by (simp add: to_dense_head_f32_def SparseMHA_scores_f32_def Let_def bsddmm_f32_def
        transpose10_f32_def three_loops_def dot32_def fl_def float32_overflow_def zero_fval_def)
  have "to_dense_head_f32
        (SparseMHA_attn_f32 1 1 three_loops (\<lambda>n m b. 10 ^ 30) (\<lambda>n m b. 10 ^ 30)) 1 1 0 = NonFin"
    by (simp add: to_dense_head_f32_def SparseMHA_attn_f32_def softmax_f32_def SparseMHA_scores_f32_def
        Let_def bsddmm_f32_def transpose10_f32_def three_loops_def dot32_def fl_def
        float32_overflow_def zero_fval_def)
  then show ?thesis using score from_coo_three_loops by simp
qed

section \<open>The degrees of the literal scenario\<close>

text \<open>
  C5. The incidence matrix built from the literal index pairs of the notebook is 11 by 5;
  its row sums (node degrees) are 1, 1, 4, 1, 1, 4, 1, 2, 2, 2, 1 and its column sums
  (hyperedge degrees) are 4, 4, 4, 4, 4.
\<close>

theorem example_degrees:
  "\<exists>H. from_coo example_rows example_cols None = Some H
     \<and> shape H = (11, 5)
     \<and> sum_sp H 1 = [1, 1, 4, 1, 1, 4, 1, 2, 2, 2, 1]
     \<and> sum_sp H 0 = [4, 4, 4, 4, 4]"
  by (simp add: from_coo_def example_rows_def example_cols_def shape_def sum_sp_def upt_rec)

end
